theory Spec2Isabelle
  imports Complex_Main
begin

section \<open>Python values shared by the modules\<close>

text \<open>
  The exceptions that the modelled code raises itself (with the message of the
  \<^verbatim>\<open>raise\<close> statement) or that the interpreter and numpy raise on its behalf
  (those carry the name of the attribute, variable or operand at fault, or
  numpy's message).
\<close>

datatype error =
    KeyError
  | IndexError
  | TypeError string
  | AttributeError string
  | RuntimeError string
  | ValueError string
  | UnboundLocalError string
  | ZeroDivisionError
  | LinAlgError

text \<open>\<^verbatim>\<open>str(n)\<close> for a non-negative integer, and \<^verbatim>\<open>str(list)\<close>.\<close>

fun str_nat :: "nat \<Rightarrow> string" where
  "str_nat n =
     (if n < 10 then [''0123456789'' ! n]
      else str_nat (n div 10) @ [''0123456789'' ! (n mod 10)])"

declare str_nat.simps [simp del]

fun join :: "string \<Rightarrow> string list \<Rightarrow> string" where
  "join sep [] = []"
| "join sep [x] = x"
| "join sep (x # y # ys) = x @ sep @ join sep (y # ys)"

definition str_list :: "('a \<Rightarrow> string) \<Rightarrow> 'a list \<Rightarrow> string" where
  "str_list f xs = ''['' @ join '', '' (map f xs) @ '']''"

section \<open>nga.py: Graph\<close>

text \<open>
  A \<^verbatim>\<open>Graph\<close> holds what the external \<^verbatim>\<open>_crayon.graph\<close> object returns for an
  adjacency matrix (\<^verbatim>\<open>adj\<close>, \<^verbatim>\<open>gdd\<close>, \<^verbatim>\<open>gdv\<close>, arrays of counts) and the
  graph-wide vector \<^verbatim>\<open>ngdv\<close> that \<^verbatim>\<open>__init__\<close> derives from \<^verbatim>\<open>gdv\<close>.
  Floating-point numbers are idealised as reals throughout.
\<close>

record Graph =
  adj :: "nat list list"
  gdd :: "nat list list"
  gdv :: "nat list list"
  ngdv :: "real list"

text \<open>\<^verbatim>\<open>np.sum(gdv,0)\<close>: the column sums of a matrix given by its rows.\<close>

fun sum_axis0 :: "nat list list \<Rightarrow> nat list" where
  "sum_axis0 [] = []"
| "sum_axis0 [r] = r"
| "sum_axis0 (r # rs) = map2 (+) r (sum_axis0 rs)"

definition sum_all :: "nat list list \<Rightarrow> nat" where
  "sum_all m = sum_list (map sum_list m)"

text \<open>
  \<^verbatim>\<open>Graph.__init__\<close>, given the three arrays of the external object:
  \<^verbatim>\<open>self.ngdv = np.sum(self.gdv,0) / max(float(np.sum(self.gdv)),1.)\<close>.
\<close>

definition Graph_init :: "nat list list \<Rightarrow> nat list list \<Rightarrow> nat list list \<Rightarrow> Graph" where
  "Graph_init a d v =
     \<lparr>adj = a, gdd = d, gdv = v,
      ngdv = map (\<lambda>c. real c / max (real (sum_all v)) 1) (sum_axis0 v)\<rparr>"

text \<open>
  \<^verbatim>\<open>self.ngdv - other.ngdv\<close> on one-dimensional arrays: elementwise on equal
  lengths, a length-one array is broadcast, any other pair of lengths raises.
\<close>

definition np_sub :: "real list \<Rightarrow> real list \<Rightarrow> error + real list" where
  "np_sub a b =
     (if length a = length b then Inr (map2 (-) a b)
      else if length a = 1 then Inr (map (\<lambda>y. hd a - y) b)
      else if length b = 1 then Inr (map (\<lambda>x. x - hd b) a)
      else Inl (ValueError ''operands could not be broadcast together''))"

definition np_norm :: "real list \<Rightarrow> real" where
  "np_norm v = sqrt (sum_list (map (\<lambda>x. x * x) v))"

text \<open>\<^verbatim>\<open>Graph.__sub__\<close>, \<^verbatim>\<open>__eq__\<close> and \<^verbatim>\<open>__ne__\<close>.\<close>

definition Graph_sub :: "Graph \<Rightarrow> Graph \<Rightarrow> error + real" where
  "Graph_sub self other =
     (case np_sub (ngdv self) (ngdv other) of
        Inl e \<Rightarrow> Inl e
      | Inr v \<Rightarrow> Inr (np_norm v))"

definition Graph_eq :: "Graph \<Rightarrow> Graph \<Rightarrow> error + bool" where
  "Graph_eq self other =
     (case Graph_sub self other of Inl e \<Rightarrow> Inl e | Inr d \<Rightarrow> Inr (d = 0))"

definition Graph_ne :: "Graph \<Rightarrow> Graph \<Rightarrow> error + bool" where
  "Graph_ne self other =
     (case Graph_sub self other of Inl e \<Rightarrow> Inl e | Inr d \<Rightarrow> Inr (d > 0))"

text \<open>
  \<^verbatim>\<open>Graph.__str__\<close> with the module's \<^verbatim>\<open>sig_compression = False\<close>:
  \<^verbatim>\<open>'%s:%s:%s' % (str(len(adj)), str(np.sum(adj)), str(gdd.tolist()))\<close>.
\<close>

definition Graph_str :: "Graph \<Rightarrow> string" where
  "Graph_str self =
     str_nat (length (adj self)) @ '':'' @ str_nat (sum_all (adj self)) @ '':'' @
     str_list (str_list str_nat) (gdd self)"

section \<open>nga.py: GraphLibrary\<close>

record GraphLibrary =
  sigs :: "string list"
  graphs :: "Graph list"
  counts :: "real list"
  index :: "string \<rightharpoonup> nat"

definition GraphLibrary_init :: GraphLibrary where
  "GraphLibrary_init = \<lparr>sigs = [], graphs = [], counts = [], index = Map.empty\<rparr>"

text \<open>\<^verbatim>\<open>GraphLibrary.find\<close>: the index of the signature, or None.\<close>

definition find_graph :: "GraphLibrary \<Rightarrow> Graph \<Rightarrow> nat option" where
  "find_graph self G = index self (Graph_str G)"

text \<open>
  The \<^verbatim>\<open>except:\<close> branch of \<^verbatim>\<open>encounter\<close>: the graph is appended under the next
  index.
\<close>

definition encounter_append :: "GraphLibrary \<Rightarrow> Graph \<Rightarrow> real \<Rightarrow> nat \<times> GraphLibrary" where
  "encounter_append self G count =
     (length (graphs self),
      self\<lparr>sigs := sigs self @ [Graph_str G],
           graphs := graphs self @ [G],
           counts := counts self @ [count],
           index := (index self)(Graph_str G \<mapsto> length (graphs self))\<rparr>)"

text \<open>
  The \<^verbatim>\<open>try\<close> block of \<^verbatim>\<open>encounter\<close>: a missing key (KeyError) and an index
  beyond \<^verbatim>\<open>counts\<close> (IndexError) both end in the bare \<^verbatim>\<open>except:\<close>.
\<close>

definition encounter_try :: "GraphLibrary \<Rightarrow> Graph \<Rightarrow> real \<Rightarrow> nat \<times> GraphLibrary" where
  "encounter_try self G count =
     (case index self (Graph_str G) of
        None \<Rightarrow> encounter_append self G count
      | Some idx \<Rightarrow>
          if idx < length (counts self)
          then (idx, self\<lparr>counts := (counts self)[idx := counts self ! idx + count]\<rparr>)
          else encounter_append self G count)"

definition degenerate_msg :: "string \<Rightarrow> string" where
  "degenerate_msg sig = ''Found degenerate GDD: '' @ [CHR 0x0A] @ sig @ [CHR 0x0A]"

text \<open>
  \<^verbatim>\<open>GraphLibrary.encounter(G,count)\<close>. The result is the returned index or the
  exception, together with the library as the call leaves it. The three
  diagnostic \<^verbatim>\<open>print\<close>s before the \<^verbatim>\<open>raise\<close> are not modelled.
\<close>

definition encounter :: "GraphLibrary \<Rightarrow> Graph \<Rightarrow> real \<Rightarrow> (error + nat) \<times> GraphLibrary" where
  "encounter self G count =
     (case encounter_try self G count of
        (idx, self') \<Rightarrow>
          if idx < length (graphs self') then
            (case Graph_ne (graphs self' ! idx) G of
               Inl e \<Rightarrow> (Inl e, self')
             | Inr True \<Rightarrow> (Inl (RuntimeError (degenerate_msg (Graph_str G))), self')
             | Inr False \<Rightarrow> (Inr idx, self'))
          else (Inl IndexError, self'))"

text \<open>
  The argument of \<^verbatim>\<open>collect\<close> is any Python value: a list of values or a single
  one; each value is a GraphLibrary or something whose \<^verbatim>\<open>type()\<close> differs from
  \<^verbatim>\<open>type(GraphLibrary())\<close> (and has no attribute \<^verbatim>\<open>graphs\<close>), such as a number.
\<close>

datatype pyobj = Lib GraphLibrary | NonLib

datatype pyarg = PyList "pyobj list" | PyScalar pyobj

text \<open>
  The inner loop of \<^verbatim>\<open>collect\<close> over \<^verbatim>\<open>range(len(other.graphs))\<close>;
  \<^verbatim>\<open>other.counts[idx]\<close> raises when \<^verbatim>\<open>counts\<close> is shorter than \<^verbatim>\<open>graphs\<close>.
\<close>

fun collect_graphs ::
  "GraphLibrary \<Rightarrow> GraphLibrary \<Rightarrow> bool \<Rightarrow> nat list \<Rightarrow> (error + unit) \<times> GraphLibrary" where
  "collect_graphs self other cnt [] = (Inr (), self)"
| "collect_graphs self other cnt (idx # rest) =
     (if cnt \<and> \<not> idx < length (counts other) then (Inl IndexError, self)
      else
        (case encounter self (graphs other ! idx) (if cnt then counts other ! idx else 0) of
           (Inl e, self') \<Rightarrow> (Inl e, self')
         | (Inr _, self') \<Rightarrow> collect_graphs self' other cnt rest))"

text \<open>The outer loop \<^verbatim>\<open>for other in others\<close>.\<close>

fun collect_others ::
  "GraphLibrary \<Rightarrow> pyobj list \<Rightarrow> bool \<Rightarrow> (error + unit) \<times> GraphLibrary" where
  "collect_others self [] cnt = (Inr (), self)"
| "collect_others self (NonLib # rest) cnt = (Inl (AttributeError ''graphs''), self)"
| "collect_others self (Lib other # rest) cnt =
     (case collect_graphs self other cnt [0..<length (graphs other)] of
        (Inl e, self') \<Rightarrow> (Inl e, self')
      | (Inr _, self') \<Rightarrow> collect_others self' rest cnt)"

definition collect_msg :: string where
  "collect_msg = ''GraphLibrary.collect expects a list of GraphLibrary objects''"

text \<open>\<^verbatim>\<open>GraphLibrary.collect(others,counts)\<close>.\<close>

definition collect :: "GraphLibrary \<Rightarrow> pyarg \<Rightarrow> bool \<Rightarrow> (error + unit) \<times> GraphLibrary" where
  "collect self arg cnt =
     (let others = (case arg of PyList xs \<Rightarrow> xs | PyScalar x \<Rightarrow> [x]) in
      case others of
        [] \<Rightarrow> (Inl IndexError, self)
      | NonLib # _ \<Rightarrow> (Inl (TypeError collect_msg), self)
      | Lib _ # _ \<Rightarrow> collect_others self others cnt)"

section \<open>nga.py: Ensemble\<close>

text \<open>
  A Python \<^verbatim>\<open>dict\<close> in insertion order: assigning to a present key replaces its
  value in place, assigning to an absent key appends the entry.
\<close>

fun dict_set :: "('k \<times> 'v) list \<Rightarrow> 'k \<Rightarrow> 'v \<Rightarrow> ('k \<times> 'v) list" where
  "dict_set [] k v = [(k, v)]"
| "dict_set ((k', v') # d) k v = (if k' = k then (k, v) # d else (k', v') # dict_set d k v)"

definition dict_has :: "('k \<times> 'v) list \<Rightarrow> 'k \<Rightarrow> bool" where
  "dict_has d k \<longleftrightarrow> map_of d k \<noteq> None"

text \<open>
  A matrix cell of \<^verbatim>\<open>dists\<close>: the null value \<^verbatim>\<open>np.Inf\<close> or a number.
\<close>

datatype cell = PInf | Fin real

text \<open>
  The fields of an \<^verbatim>\<open>Ensemble\<close> that \<^verbatim>\<open>collect\<close>, \<^verbatim>\<open>prune\<close> and
  \<^verbatim>\<open>computeDists\<close> use. A snapshot's lookup maps a signature to particle
  indices. \<^verbatim>\<open>lm_idx\<close> and \<^verbatim>\<open>lm_sigs\<close> are attributes that only \<^verbatim>\<open>prune\<close>
  creates (None here: the attribute does not exist); \<^verbatim>\<open>dists\<close>,
  \<^verbatim>\<open>valid_cols\<close> and \<^verbatim>\<open>valid_rows\<close> start as Python's \<^verbatim>\<open>None\<close>.
  \<^verbatim>\<open>master\<close> is the role flag that \<^verbatim>\<open>parallel.info()\<close> returns.
\<close>

record Ensemble =
  filenames :: "string list"
  library :: GraphLibrary
  lookups :: "(nat \<times> (string \<times> nat list) list) list"
  dists :: "cell list list option"
  valid_cols :: "nat list option"
  valid_rows :: "nat list option"
  lm_idx :: "nat list option"
  lm_sigs :: "string list option"
  master :: bool

definition Ensemble_init :: "bool \<Rightarrow> Ensemble" where
  "Ensemble_init is_master =
     \<lparr>filenames = [], library = GraphLibrary_init, lookups = [], dists = None,
      valid_cols = None, valid_rows = None, lm_idx = None, lm_sigs = None,
      master = is_master\<rparr>"

text \<open>
  What \<^verbatim>\<open>self.p.gatherData(self)\<close> hands back (module \<^verbatim>\<open>parallel\<close> is
  external): a list of values or a single value, each an Ensemble or not.
\<close>

datatype ensobj = Ens Ensemble | NonEns

datatype ensarg = EnsList "ensobj list" | EnsScalar ensobj

definition dup_warning :: string where
  "dup_warning = ''Warning: duplicate lookup key detected during Ensemble.collect''"

text \<open>
  The loop \<^verbatim>\<open>for key, val in other.lookups.items()\<close>, threading
  \<^verbatim>\<open>self.lookups\<close> and the lines printed so far.
\<close>

fun merge_lookups ::
  "(nat \<times> 'v) list \<Rightarrow> (nat \<times> 'v) list \<Rightarrow> string list \<Rightarrow> (nat \<times> 'v) list \<times> string list" where
  "merge_lookups mine [] out = (mine, out)"
| "merge_lookups mine ((key, val) # rest) out =
     merge_lookups (dict_set mine key val) rest
       (if dict_has mine key then out @ [dup_warning] else out)"

text \<open>The loop \<^verbatim>\<open>for other in others\<close> of \<^verbatim>\<open>Ensemble.collect\<close>.\<close>

fun Ensemble_collect_loop ::
  "Ensemble \<Rightarrow> ensobj list \<Rightarrow> string list \<Rightarrow> (error + unit) \<times> Ensemble \<times> string list" where
  "Ensemble_collect_loop self [] out = (Inr (), self, out)"
| "Ensemble_collect_loop self (NonEns # rest) out = (Inl (AttributeError ''library''), self, out)"
| "Ensemble_collect_loop self (Ens other # rest) out =
     (case collect (library self) (PyScalar (Lib (library other))) True of
        (Inl e, lib') \<Rightarrow> (Inl e, self\<lparr>library := lib'\<rparr>, out)
      | (Inr _, lib') \<Rightarrow>
          (case merge_lookups (lookups self) (lookups other) out of
             (mine, out') \<Rightarrow>
               Ensemble_collect_loop (self\<lparr>library := lib', lookups := mine\<rparr>) rest out'))"

definition Ensemble_collect_msg :: string where
  "Ensemble_collect_msg = ''Ensemble.collect expects a list of Ensemble objects''"

definition complete_msg :: "nat \<Rightarrow> string" where
  "complete_msg n = ''collection complete, found '' @ str_nat n @ '' unique graphs''"

text \<open>
  \<^verbatim>\<open>Ensemble.collect()\<close>, given the gathered value. The result is None or the
  exception, the Ensemble as the call leaves it, and the lines printed.
\<close>

definition Ensemble_collect ::
  "Ensemble \<Rightarrow> ensarg \<Rightarrow> (error + unit) \<times> Ensemble \<times> string list" where
  "Ensemble_collect self gathered =
     (if \<not> master self then (Inr (), self, [])
      else
        (let others = (case gathered of EnsList xs \<Rightarrow> xs | EnsScalar x \<Rightarrow> [x]) in
         case others of
           [] \<Rightarrow> (Inr (), self, [])
         | NonEns # _ \<Rightarrow> (Inl (TypeError Ensemble_collect_msg), self, [])
         | Ens _ # _ \<Rightarrow>
             (case Ensemble_collect_loop self others [] of
                (Inl e, self', out) \<Rightarrow> (Inl e, self', out)
              | (Inr _, self', out) \<Rightarrow>
                  (Inr (), self', out @ [complete_msg (length (graphs (library self')))]))))"

text \<open>
  \<^verbatim>\<open>Ensemble.prune(min_freq)\<close>: the landmarks are the indices whose count
  reaches the threshold (\<^verbatim>\<open>np.argwhere(counts >= min_freq).flatten()\<close>).
  \<^verbatim>\<open>min_freq\<close> is None or an integer.
\<close>

definition prune_msg :: string where
  "prune_msg = ''Must specify min_freq, and it must be castable to int''"

definition prune :: "Ensemble \<Rightarrow> int option \<Rightarrow> (error + unit) \<times> Ensemble" where
  "prune self min_freq =
     (if \<not> master self then (Inr (), self)
      else
        (case min_freq of
           None \<Rightarrow> (Inl (RuntimeError prune_msg), self)
         | Some f \<Rightarrow>
             (let lm = filter (\<lambda>i. counts (library self) ! i \<ge> real_of_int f)
                         [0..<length (counts (library self))]
              in if \<forall>i \<in> set lm. i < length (sigs (library self))
                 then (Inr (), self\<lparr>lm_idx := Some lm,
                                    lm_sigs := Some (map (\<lambda>i. sigs (library self) ! i) lm)\<rparr>)
                 else (Inl IndexError, self\<lparr>lm_idx := Some lm\<rparr>))))"

text \<open>
  The task list of \<^verbatim>\<open>computeDists\<close>: every pair \<^verbatim>\<open>(i, self.lm_idx[j])\<close> for
  \<^verbatim>\<open>i\<close> in \<^verbatim>\<open>range(n)\<close> and \<^verbatim>\<open>j\<close> in \<^verbatim>\<open>range(m)\<close>, row by row.
\<close>

definition task_list :: "nat \<Rightarrow> nat \<Rightarrow> nat list \<Rightarrow> (nat \<times> nat) list" where
  "task_list n m lm = concat (map (\<lambda>i. map (\<lambda>j. (i, lm ! j)) [0..<m]) [0..<n])"

text \<open>\<^verbatim>\<open>np.argwhere(lm == j)[0]\<close>: the first position of \<^verbatim>\<open>j\<close>.\<close>

fun first_pos :: "nat list \<Rightarrow> nat \<Rightarrow> nat option" where
  "first_pos [] j = None"
| "first_pos (x # xs) j = (if x = j then Some 0 else map_option Suc (first_pos xs j))"

text \<open>\<^verbatim>\<open>self.dists[i,jid] = d\<close>.\<close>

definition set_cell :: "cell list list \<Rightarrow> nat \<Rightarrow> nat \<Rightarrow> cell \<Rightarrow> cell list list" where
  "set_cell D i c v = D[i := (D ! i)[c := v]]"

text \<open>
  The assembly loop \<^verbatim>\<open>for k in range(len(result_list))\<close>, as a walk along
  the results with the tasks not yet consumed. The matrix is updated in place,
  so an exception leaves it as filled so far.
\<close>

fun assemble ::
  "nat list \<Rightarrow> cell list list \<Rightarrow> (nat \<times> nat) list \<Rightarrow> real list \<Rightarrow>
     (error + unit) \<times> cell list list" where
  "assemble lm D tasks [] = (Inr (), D)"
| "assemble lm D [] (d # ds) = (Inl IndexError, D)"
| "assemble lm D ((i, j) # tasks) (d # ds) =
     (case first_pos lm j of
        None \<Rightarrow> (Inl IndexError, D)
      | Some jid \<Rightarrow>
          if i < length D \<and> jid < length (D ! i)
          then assemble lm (set_cell D i jid (Fin d)) tasks ds
          else (Inl IndexError, D))"

text \<open>
  Lines 336 to 338: building the task list reads \<^verbatim>\<open>self.lm_idx[j]\<close> only
  when there is a graph and a landmark signature.
\<close>

definition build_tasks :: "nat \<Rightarrow> nat \<Rightarrow> nat list option \<Rightarrow> error + (nat \<times> nat) list" where
  "build_tasks n m lmo =
     (if n = 0 \<or> m = 0 then Inr []
      else
        (case lmo of
           None \<Rightarrow> Inl (AttributeError ''lm_idx'')
         | Some lm \<Rightarrow> if length lm < m then Inl IndexError else Inr (task_list n m lm)))"

text \<open>
  Lines 353 to 373, the outlier stage. It calls scipy's hierarchical
  clustering; \<^verbatim>\<open>good_cols\<close> stands for lines 356 to 362 and \<^verbatim>\<open>good_rows\<close>
  for lines 367 to 373, each a function from the distance matrix to the
  surviving indices (or an exception). The stage assigns \<^verbatim>\<open>lm_idx\<close>,
  \<^verbatim>\<open>valid_cols\<close> and \<^verbatim>\<open>valid_rows\<close> and never \<^verbatim>\<open>dists\<close>.
\<close>

definition outlier_stage ::
  "(cell list list \<Rightarrow> error + nat list) \<Rightarrow> (cell list list \<Rightarrow> error + nat list) \<Rightarrow>
     Ensemble \<Rightarrow> cell list list \<Rightarrow> (error + unit) \<times> Ensemble" where
  "outlier_stage good_cols good_rows self D =
     (case good_cols D of
        Inl e \<Rightarrow> (Inl e, self)
      | Inr good_col \<Rightarrow>
          (case lm_idx self of
             None \<Rightarrow> (Inl (AttributeError ''lm_idx''), self)
           | Some lm \<Rightarrow>
               if \<forall>c \<in> set good_col. c < length lm then
                 (let self1 = self\<lparr>lm_idx := Some (map (\<lambda>c. lm ! c) good_col),
                                   valid_cols := Some good_col\<rparr>
                  in case good_rows D of
                       Inl e \<Rightarrow> (Inl e, self1)
                     | Inr rows \<Rightarrow> (Inr (), self1\<lparr>valid_rows := Some rows\<rparr>))
               else (Inl IndexError, self)))"

text \<open>
  \<^verbatim>\<open>Ensemble.computeDists\<close>. \<^verbatim>\<open>results\<close> is what the external task queue
  \<^verbatim>\<open>self.p.computeQueue\<close> returns. A worker that is not the coordinator
  assigns nothing.
\<close>

definition computeDists ::
  "(cell list list \<Rightarrow> error + nat list) \<Rightarrow> (cell list list \<Rightarrow> error + nat list) \<Rightarrow>
     Ensemble \<Rightarrow> real list \<Rightarrow> bool \<Rightarrow> (error + unit) \<times> Ensemble" where
  "computeDists good_cols good_rows self results detect_outliers =
     (if \<not> master self then (Inr (), self)
      else
        (case lm_sigs self of
           None \<Rightarrow> (Inl (AttributeError ''lm_sigs''), self)
         | Some lms \<Rightarrow>
             (let n = length (sigs (library self));
                  m = length lms;
                  D0 = replicate n (replicate m PInf);
                  self1 = self\<lparr>dists := Some D0\<rparr>
              in case build_tasks n m (lm_idx self) of
                   Inl e \<Rightarrow> (Inl e, self1)
                 | Inr tasks \<Rightarrow>
                     (case assemble (case lm_idx self of None \<Rightarrow> [] | Some lm \<Rightarrow> lm)
                             D0 tasks results of
                        (Inl e, D) \<Rightarrow> (Inl e, self1\<lparr>dists := Some D\<rparr>)
                      | (Inr _, D) \<Rightarrow>
                          (let self2 = self1\<lparr>dists := Some D\<rparr> in
                           if \<not> detect_outliers then (Inr (), self2)
                           else outlier_stage good_cols good_rows self2 D)))))"

section \<open>dmap.py: DMap\<close>

text \<open>
  A \<^verbatim>\<open>DMap\<close> instance is its attribute dictionary: Python creates an
  attribute when it is first assigned, and reading one that was never assigned
  raises AttributeError. Attribute values are None, a float, an integer, a
  vector or a matrix (two-dimensional arrays are lists of rows of one length).
\<close>

datatype val = VNone | VNum real | VNat nat | VVec "real list" | VMat "real list list"

type_synonym DMap = "string \<rightharpoonup> val"

definition getattr :: "DMap \<Rightarrow> string \<Rightarrow> error + val" where
  "getattr self name = (case self name of None \<Rightarrow> Inl (AttributeError name) | Some v \<Rightarrow> Inr v)"

text \<open>A value used as a float operand: a float or a Python integer.\<close>

definition as_float :: "val \<Rightarrow> real option" where
  "as_float v = (case v of VNum r \<Rightarrow> Some r | VNat n \<Rightarrow> Some (real n) | _ \<Rightarrow> None)"

text \<open>\<^verbatim>\<open>DMap.__init__(num_evec)\<close>.\<close>

definition DMap_init :: "nat \<Rightarrow> DMap" where
  "DMap_init num_evec =
     [''alpha'' \<mapsto> VNum 1, ''num_evec'' \<mapsto> VNat num_evec, ''epsilon'' \<mapsto> VNone,
      ''evals'' \<mapsto> VNone, ''evecs'' \<mapsto> VNone, ''evecs_ny'' \<mapsto> VNone, ''coords'' \<mapsto> VNone]"

text \<open>
  The numpy routines whose floating-point results the model does not compute:
  \<^verbatim>\<open>np.linalg.eig\<close> (which raises LinAlgError on input it rejects),
  \<^verbatim>\<open>np.median\<close> and \<^verbatim>\<open>np.power\<close>.
\<close>

record numpy =
  np_eig :: "real list list \<Rightarrow> error + complex list \<times> complex list list"
  np_median :: "real list list \<Rightarrow> real"
  np_power :: "real list list \<Rightarrow> real \<Rightarrow> real list list"

text \<open>\<^verbatim>\<open>shape[1]\<close> of a matrix (an array without rows is taken to have no columns).\<close>

definition ncols :: "'a list list \<Rightarrow> nat" where
  "ncols m = (case m of [] \<Rightarrow> 0 | r # _ \<Rightarrow> length r)"

text \<open>
  Lines 32 and 33 of \<^verbatim>\<open>compute\<close>:
  \<^verbatim>\<open>inv_neg_2eps = -1./(2.*self.epsilon)\<close>,
  \<^verbatim>\<open>kernel = np.exp(dists**2 * inv_neg_2eps)\<close>.
\<close>

definition gauss_kernel :: "real list list \<Rightarrow> real \<Rightarrow> real list list" where
  "gauss_kernel dmat eps =
     (let inv_neg_2eps = - 1 / (2 * eps)
      in map (map (\<lambda>d. exp (d ^ 2 * inv_neg_2eps))) dmat)"

text \<open>\<^verbatim>\<open>np.sum(kernel, axis=1)\<close>, \<^verbatim>\<open>np.diag\<close> and \<^verbatim>\<open>np.matmul\<close>.\<close>

definition row_sums :: "real list list \<Rightarrow> real list" where
  "row_sums k = map sum_list k"

definition np_diag :: "real list \<Rightarrow> real list list" where
  "np_diag v = map (\<lambda>i. map (\<lambda>j. if i = j then v ! i else 0) [0..<length v]) [0..<length v]"

definition matmul :: "real list list \<Rightarrow> real list list \<Rightarrow> real list list" where
  "matmul a b =
     map (\<lambda>row. map (\<lambda>j. sum_list (map (\<lambda>k. row ! k * b ! k ! j) [0..<length row]))
                   [0..<ncols b]) a"

text \<open>
  Lines 33 to 35: the matrix that \<^verbatim>\<open>compute\<close> hands to \<^verbatim>\<open>np.linalg.eig\<close>.
\<close>

definition transition :: "real list list \<Rightarrow> real \<Rightarrow> real list list" where
  "transition dmat eps =
     (let kernel = gauss_kernel dmat eps;
          rsum = row_sums kernel
      in matmul (np_diag (map (\<lambda>r. 1 / r) rsum)) kernel)"

text \<open>
  \<^verbatim>\<open>np.argsort\<close>: the indices in ascending order of their values (numpy
  leaves the order of equal values open; here they keep their input order).
\<close>

definition argsort :: "real list \<Rightarrow> nat list" where
  "argsort xs = sort_key (\<lambda>i. xs ! i) [0..<length xs]"

text \<open>
  Lines 38 to 43: real parts, descending order, and the slice
  \<^verbatim>\<open>[1:(1+self.num_evec)]\<close> of the values and of the columns. The fancy index
  \<^verbatim>\<open>evecs[:,idx]\<close> raises when a row is shorter than \<^verbatim>\<open>evals\<close>; by then
  \<^verbatim>\<open>self.evals\<close> is assigned.
\<close>

definition keep_spectrum ::
  "DMap \<Rightarrow> complex list \<Rightarrow> complex list list \<Rightarrow> (error + unit) \<times> DMap" where
  "keep_spectrum self w v =
     (let evals = map Re w;
          evecs = map (map Re) v;
          idx = rev (argsort evals)
      in case getattr self ''num_evec'' of
           Inl e \<Rightarrow> (Inl e, self)
         | Inr (VNat k) \<Rightarrow>
             (let self1 = self(''evals'' \<mapsto> VVec (take k (drop 1 (map (\<lambda>i. evals ! i) idx))))
              in if \<forall>row \<in> set evecs. \<forall>i \<in> set idx. i < length row
                 then (Inr (),
                       self1(''evecs'' \<mapsto>
                         VMat (map (\<lambda>row. take k (drop 1 (map (\<lambda>i. row ! i) idx))) evecs)))
                 else (Inl IndexError, self1))
         | Inr _ \<Rightarrow> (Inl (TypeError ''num_evec''), self))"

text \<open>
  \<^verbatim>\<open>DMap.compute(dists,epsilon)\<close>. The bandwidth is None or a number; a Python
  zero makes line 32 raise ZeroDivisionError (a numpy scalar zero would
  instead give non-finite values, which reals do not have). An array as
  bandwidth is not modelled and is reported as a type error.
\<close>

definition compute :: "numpy \<Rightarrow> DMap \<Rightarrow> real list list \<Rightarrow> val \<Rightarrow> (error + unit) \<times> DMap" where
  "compute np self dmat epsilon =
     (let self1 = self(''epsilon'' \<mapsto> epsilon, ''dists'' \<mapsto> VMat dmat) in
      case as_float epsilon of
        Some eps \<Rightarrow>
          if eps = 0 then (Inl ZeroDivisionError, self1)
          else
            (case np_eig np (transition dmat eps) of
               Inl e \<Rightarrow> (Inl e, self1)
             | Inr (w, v) \<Rightarrow> keep_spectrum self1 w v)
      | None \<Rightarrow> (Inl (TypeError ''epsilon''), self1))"

text \<open>
  \<^verbatim>\<open>DMap.embed(dists)\<close>. Dividing an array by a zero float only warns, so
  line 46 raises for a None bandwidth alone. \<^verbatim>\<open>np.matmul\<close> raises on
  mismatched shapes.
\<close>

definition embed :: "DMap \<Rightarrow> real list list \<Rightarrow> error + real list list" where
  "embed self dmat =
     (case getattr self ''epsilon'' of
        Inl e \<Rightarrow> Inl e
      | Inr epsilon \<Rightarrow>
        (case as_float epsilon of
           None \<Rightarrow> Inl (TypeError ''epsilon'')
         | Some eps \<Rightarrow>
          (let d = map (map (\<lambda>x. exp (- (x ^ 2) / (2 * eps)))) dmat;
               inv_rsum = map (\<lambda>r. 1 / r) (row_sums d);
               d' = map2 (\<lambda>row s. map (\<lambda>x. x * s) row) d inv_rsum
           in case getattr self ''eigenvec'' of
                Inl e \<Rightarrow> Inl e
              | Inr vec \<Rightarrow>
                  (case getattr self ''eigenval'' of
                     Inl e \<Rightarrow> Inl e
                   | Inr ev \<Rightarrow>
                       (case (vec, ev) of
                          (VMat m, VVec w) \<Rightarrow>
                            if ncols d' = length m \<and> ncols m = length w
                            then Inr (map (\<lambda>row. map2 (/) row w) (matmul d' m))
                            else Inl (ValueError ''shapes not aligned'')
                        | _ \<Rightarrow> Inl (TypeError ''eigenvec''))))))"

text \<open>
  Fancy indexing \<^verbatim>\<open>M[rows,:]\<close> and \<^verbatim>\<open>M[:,cols]\<close> with index lists; an index
  beyond the axis raises.
\<close>

definition rows_at :: "real list list \<Rightarrow> nat list \<Rightarrow> error + real list list" where
  "rows_at m rows =
     (if \<forall>r \<in> set rows. r < length m then Inr (map (\<lambda>r. m ! r) rows) else Inl IndexError)"

definition cols_at :: "real list list \<Rightarrow> nat list \<Rightarrow> error + real list list" where
  "cols_at m cols =
     (if \<forall>c \<in> set cols. c < ncols m then Inr (map (\<lambda>row. map (\<lambda>c. row ! c) cols) m)
      else Inl IndexError)"

definition sub_matrix :: "real list list \<Rightarrow> nat list \<Rightarrow> nat list \<Rightarrow> error + real list list" where
  "sub_matrix m rows cols =
     (case rows_at m rows of Inl e \<Rightarrow> Inl e | Inr m' \<Rightarrow> cols_at m' cols)"

text \<open>
  Lines 62 to 75 of \<^verbatim>\<open>build\<close>: the matrices \<^verbatim>\<open>D\<close> and \<^verbatim>\<open>L\<close>. Without
  landmarks \<^verbatim>\<open>L\<close> is never assigned (None here).
\<close>

definition build_select ::
  "real list list \<Rightarrow> nat list option \<Rightarrow> nat list \<Rightarrow> nat list \<Rightarrow>
     error + real list list \<times> real list list option" where
  "build_select alpha_dists landmarks rows cols =
     (case landmarks of
        None \<Rightarrow>
          (case sub_matrix alpha_dists rows cols of
             Inl e \<Rightarrow> Inl e
           | Inr D \<Rightarrow> Inr (D, None))
      | Some lms \<Rightarrow>
          (case sub_matrix alpha_dists lms cols of
             Inl e \<Rightarrow> Inl e
           | Inr D \<Rightarrow>
               (case sub_matrix alpha_dists rows cols of
                  Inl e \<Rightarrow> Inl e
                | Inr L \<Rightarrow> Inr (D, Some L))))"

text \<open>
  \<^verbatim>\<open>DMap.build(dists,landmarks,valid_cols,valid_rows)\<close>. \<^verbatim>\<open>rest\<close> stands for
  lines 98 to 115, which run after \<^verbatim>\<open>self.evecs_ny\<close> is assigned (they call
  \<^verbatim>\<open>util.rankTransform\<close>, a module outside the sources).
\<close>

definition build ::
  "numpy \<Rightarrow> (DMap \<Rightarrow> (error + unit) \<times> DMap) \<Rightarrow> DMap \<Rightarrow> real list list \<Rightarrow>
     nat list option \<Rightarrow> nat list option \<Rightarrow> nat list option \<Rightarrow> (error + unit) \<times> DMap" where
  "build np rest self dmat landmarks vcols vrows =
     (let rows = (case vrows of None \<Rightarrow> [0..<length dmat] | Some r \<Rightarrow> r);
          cols = (case vcols of None \<Rightarrow> [0..<ncols dmat] | Some c \<Rightarrow> c)
      in case getattr self ''alpha'' of
           Inl e \<Rightarrow> (Inl e, self)
         | Inr a \<Rightarrow>
           (case as_float a of
              None \<Rightarrow> (Inl (TypeError ''alpha''), self)
            | Some alpha \<Rightarrow>
             (let alpha_dists = np_power np dmat alpha in
              case build_select alpha_dists landmarks rows cols of
                Inl e \<Rightarrow> (Inl e, self)
              | Inr (D, L) \<Rightarrow>
                  (case getattr self ''epsilon'' of
                     Inl e \<Rightarrow> (Inl e, self)
                   | Inr eps0 \<Rightarrow>
                       (let eps = (if eps0 = VNone then VNum (np_median np alpha_dists) else eps0);
                            self1 = self(''epsilon'' \<mapsto> eps)
                        in case compute np self1 D eps of
                             (Inl e, self2) \<Rightarrow> (Inl e, self2)
                           | (Inr _, self2) \<Rightarrow>
                               (case L of
                                  None \<Rightarrow> (Inl (UnboundLocalError ''L''), self2)
                                | Some L' \<Rightarrow>
                                    (case embed self2 L' of
                                       Inl e \<Rightarrow> (Inl e, self2)
                                     | Inr loc \<Rightarrow> rest (self2(''evecs_ny'' \<mapsto> VMat loc)))))))))"

text \<open>
  The states of a \<^verbatim>\<open>DMap\<close> that its operations produce: a fresh instance, and
  whatever \<^verbatim>\<open>compute\<close> (called with None or a number as bandwidth) or
  \<^verbatim>\<open>build\<close> leave behind, whether they return or raise. \<^verbatim>\<open>embed\<close> assigns
  nothing.
\<close>

inductive reachable :: "numpy \<Rightarrow> (DMap \<Rightarrow> (error + unit) \<times> DMap) \<Rightarrow> DMap \<Rightarrow> bool"
  for np :: numpy and rest :: "DMap \<Rightarrow> (error + unit) \<times> DMap" where
  r_init: "reachable np rest (DMap_init k)"
| r_compute: "reachable np rest s \<Longrightarrow> eps = VNone \<or> as_float eps \<noteq> None \<Longrightarrow>
     reachable np rest (snd (compute np s dmat eps))"
| r_build: "reachable np rest s \<Longrightarrow> reachable np rest (snd (build np rest s dmat lms vc vr))"

section \<open>color.py: rankOrderTransform\<close>

text \<open>
  Entries of the coordinate arrays are floats that may be NaN: \<open>None\<close> is NaN.
\<close>

type_synonym fl = "real option"

text \<open>\<^verbatim>\<open>np.unique(r[r==r])\<close>: the distinct non-NaN values in ascending order.\<close>

definition non_nan :: "fl list \<Rightarrow> real list" where
  "non_nan r = concat (map (\<lambda>x. case x of None \<Rightarrow> [] | Some v \<Rightarrow> [v]) r)"

definition np_unique :: "real list \<Rightarrow> real list" where
  "np_unique xs = sort (remdups xs)"

text \<open>\<^verbatim>\<open>np.linspace(0.,1.,n)\<close>: \<open>n\<close> evenly spaced points from 0 to 1.\<close>

definition linspace01 :: "nat \<Rightarrow> real list" where
  "linspace01 n = map (\<lambda>i. real i / real (n - 1)) [0..<n]"

text \<open>
  \<^verbatim>\<open>np.interp(x, xp, fp)\<close> at one non-NaN point, over the sample points paired
  with their values: \<^verbatim>\<open>fp[0]\<close> up to the first sample point, \<^verbatim>\<open>fp[-1]\<close>
  from the last one on, the chord between two neighbours otherwise.
\<close>

fun interp_at :: "real \<Rightarrow> (real \<times> real) list \<Rightarrow> real" where
  "interp_at x [] = 0"
| "interp_at x [(a, fa)] = fa"
| "interp_at x ((a, fa) # (b, fb) # rest) =
     (if x < b then (if x \<le> a then fa else (fb - fa) / (b - a) * (x - a) + fa)
      else interp_at x ((b, fb) # rest))"

text \<open>
  \<^verbatim>\<open>np.interp\<close> on an array. numpy raises ValueError when the array of
  sample points is empty or differs in length from the values. With exactly
  one sample point every entry, NaN included, becomes \<^verbatim>\<open>fp[0]\<close> (numpy's
  comparisons with NaN are all false); with more sample points NaN stays NaN.
\<close>

definition np_interp :: "fl list \<Rightarrow> real list \<Rightarrow> real list \<Rightarrow> error + fl list" where
  "np_interp xs xp fp =
     (if xp = [] then Inl (ValueError ''array of sample points is empty'')
      else if length fp \<noteq> length xp then Inl (ValueError ''fp and xp are not of the same length.'')
      else if length xp = 1 then Inr (map (\<lambda>_. Some (hd fp)) xs)
      else Inr (map (map_option (\<lambda>x. interp_at x (zip xp fp))) xs))"

text \<open>Reading column \<^verbatim>\<open>R[:,i]\<close> and assigning column \<^verbatim>\<open>coords[:,i]\<close>.\<close>

definition get_col :: "'a list list \<Rightarrow> nat \<Rightarrow> 'a list" where
  "get_col m i = map (\<lambda>row. row ! i) m"

definition set_col :: "'a list list \<Rightarrow> nat \<Rightarrow> 'a list \<Rightarrow> 'a list list" where
  "set_col m i c = map2 (\<lambda>row v. row[i := v]) m c"

text \<open>The loop \<^verbatim>\<open>for i in range(R.shape[1])\<close>.\<close>

fun rank_columns :: "fl list list \<Rightarrow> fl list list \<Rightarrow> nat list \<Rightarrow> error + fl list list" where
  "rank_columns R coords [] = Inr coords"
| "rank_columns R coords (i # is) =
     (let r = get_col R i;
          s = np_unique (non_nan r);
          x = linspace01 (length s)
      in case np_interp r s x of
           Inl e \<Rightarrow> Inl e
         | Inr c \<Rightarrow> rank_columns R (set_col coords i c) is)"

text \<open>
  \<^verbatim>\<open>rankOrderTransform(R)\<close>. \<^verbatim>\<open>coords[:,-1]\<close> raises on an array without
  columns; the rows whose last coordinate is still NaN are set to 1.
\<close>

definition rankOrderTransform :: "fl list list \<Rightarrow> error + fl list list" where
  "rankOrderTransform R =
     (let coords = map (\<lambda>row. map (\<lambda>_. None) row) R in
      case rank_columns R coords [0..<ncols R] of
        Inl e \<Rightarrow> Inl e
      | Inr coords' \<Rightarrow>
          if ncols R = 0 then Inl IndexError
          else Inr (map (\<lambda>row. if last row = None then map (\<lambda>_. Some 1) row else row) coords'))"

text \<open>
  The kernel as the specification words it, for comparison with line 33:
  \<open>exp(-d\<^sup>2 / (2 epsilon\<^sup>2))\<close>.
\<close>

definition spec_kernel_entry :: "real \<Rightarrow> real \<Rightarrow> real" where
  "spec_kernel_entry d epsilon = exp (- (d ^ 2) / (2 * epsilon ^ 2))"

section \<open>Well-formed libraries and example values\<close>

text \<open>
  What \<^verbatim>\<open>encounter\<close> keeps true of a library: one count per graph, and
  every indexed signature points at a stored graph with that signature.
\<close>

definition lib_ok :: "GraphLibrary \<Rightarrow> bool" where
  "lib_ok L \<longleftrightarrow>
     length (counts L) = length (graphs L) \<and>
     (\<forall>sig idx. index L sig = Some idx \<longrightarrow>
        idx < length (graphs L) \<and> Graph_str (graphs L ! idx) = sig)"

text \<open>
  Two graphs on four nodes with three edges each, a path and a star, given the
  same degree distribution by the external object and different graphlet
  degree vectors: one signature, nonzero distance. And the library that holds
  the first.
\<close>

definition g1 :: Graph where
  "g1 = Graph_init [[0, 1, 0, 0], [1, 0, 1, 0], [0, 1, 0, 1], [0, 0, 1, 0]] [[1, 2]]
                   [[1, 0], [2, 0], [2, 0], [1, 0]]"

definition g2 :: Graph where
  "g2 = Graph_init [[0, 1, 1, 1], [1, 0, 0, 0], [1, 0, 0, 0], [1, 0, 0, 0]] [[1, 2]]
                   [[3, 0], [1, 1], [1, 1], [1, 1]]"

definition lib1 :: GraphLibrary where
  "lib1 = \<lparr>sigs = [''4:6:[[1, 2]]''], graphs = [g1], counts = [1],
           index = [''4:6:[[1, 2]]'' \<mapsto> 0]\<rparr>"

text \<open>
  Three worker Ensembles: the first two both hold lookups for frames 0 and 1,
  the third holds neither; the number of lookup entries that a gathered list
  brings to the merge; a library of two graphs and the coordinator that
  \<^verbatim>\<open>prune\<close> leaves with both as landmarks; an outlier stage that keeps every
  column and row.
\<close>

definition ens_c :: Ensemble where
  "ens_c = (Ensemble_init False)\<lparr>lookups := [(0, [(''s'', [0, 1])]), (1, [(''t'', [0])])]\<rparr>"

definition ens_d :: Ensemble where
  "ens_d = (Ensemble_init False)\<lparr>lookups := [(1, [(''t'', [1])]), (0, [(''s'', [2])]),
                                              (2, [(''u'', [0])])]\<rparr>"

definition ens_e :: Ensemble where
  "ens_e = (Ensemble_init False)\<lparr>lookups := [(3, [(''v'', [0])])]\<rparr>"

definition merged_entries :: "ensobj list \<Rightarrow> nat" where
  "merged_entries others =
     sum_list (map (\<lambda>x. case x of Ens e \<Rightarrow> length (lookups e) | NonEns \<Rightarrow> 0) others)"

definition g3 :: Graph where
  "g3 = Graph_init [[0]] [[1]] [[1]]"

definition lib2 :: GraphLibrary where
  "lib2 = \<lparr>sigs = [''4:6:[[1, 2]]'', ''1:0:[[1]]''], graphs = [g1, g3], counts = [1, 1],
           index = [''4:6:[[1, 2]]'' \<mapsto> 0, ''1:0:[[1]]'' \<mapsto> 1]\<rparr>"

definition ens_m :: Ensemble where
  "ens_m = (Ensemble_init True)\<lparr>library := lib2, lm_idx := Some [0, 1],
              lm_sigs := Some [''4:6:[[1, 2]]'', ''1:0:[[1]]'']\<rparr>"

definition all_cols :: "cell list list \<Rightarrow> error + nat list" where
  "all_cols D = Inr [0..<ncols D]"

definition all_rows :: "cell list list \<Rightarrow> error + nat list" where
  "all_rows D = Inr [0..<length D]"

text \<open>
  Two points at distance 1, and three points on a line.
\<close>

definition two_points :: "real list list" where
  "two_points = [[0, 1], [1, 0]]"

definition three_points :: "real list list" where
  "three_points = [[0, 1, 2], [1, 0, 1], [2, 1, 0]]"

text \<open>
  A stand-in for numpy whose eigen-solver returns three fixed eigenpairs, out
  of order and one of them complex; a continuation of \<^verbatim>\<open>build\<close> that does
  nothing; and the instance that one successful \<^verbatim>\<open>compute\<close> leaves behind.
\<close>

definition np_fixed :: numpy where
  "np_fixed =
     \<lparr>np_eig = (\<lambda>m. Inr ([Complex (1 / 2) 0, Complex 1 0, Complex (1 / 4) 1],
                          [[Complex 1 0, Complex 2 0, Complex 3 0],
                           [Complex 4 0, Complex 5 0, Complex 6 0],
                           [Complex 7 0, Complex 8 0, Complex 9 0]])),
      np_median = (\<lambda>m. 1),
      np_power = (\<lambda>m a. m)\<rparr>"

text \<open>
  An eigen-solver that is right on the matrices \<open>[[p, q], [q, p]]\<close>
  (eigenvalues \<open>p + q\<close> and \<open>p - q\<close>, with unit eigenvectors in the columns)
  and rejects every other input.
\<close>

definition eig_sym2 :: "real list list \<Rightarrow> error + complex list \<times> complex list list" where
  "eig_sym2 m =
     (if length m = 2 \<and> length (m ! 0) = 2 \<and> length (m ! 1) = 2 \<and>
         m ! 0 ! 0 = m ! 1 ! 1 \<and> m ! 0 ! 1 = m ! 1 ! 0
      then Inr ([Complex (m ! 0 ! 0 + m ! 0 ! 1) 0, Complex (m ! 0 ! 0 - m ! 0 ! 1) 0],
                [[Complex (1 / sqrt 2) 0, Complex (- 1 / sqrt 2) 0],
                 [Complex (1 / sqrt 2) 0, Complex (1 / sqrt 2) 0]])
      else Inl LinAlgError)"

definition np_sym2 :: numpy where
  "np_sym2 = \<lparr>np_eig = eig_sym2, np_median = (\<lambda>m. 1), np_power = (\<lambda>m a. m)\<rparr>"

definition rest_none :: "DMap \<Rightarrow> (error + unit) \<times> DMap" where
  "rest_none s = (Inr (), s)"

definition fitted :: DMap where
  "fitted = snd (compute np_fixed (DMap_init 1) three_points (VNum 2))"

text \<open>
  What every operation of \<^verbatim>\<open>DMap\<close> keeps true: \<^verbatim>\<open>eigenvec\<close> and
  \<^verbatim>\<open>eigenval\<close> are never assigned, and \<^verbatim>\<open>epsilon\<close> is None or a number.
\<close>

definition never_assigned :: "DMap \<Rightarrow> bool" where
  "never_assigned s \<longleftrightarrow>
     s ''eigenvec'' = None \<and> s ''eigenval'' = None \<and>
     (\<exists>e. s ''epsilon'' = Some e \<and> (e = VNone \<or> as_float e \<noteq> None))"

section \<open>Properties of GraphLibrary\<close>

lemma np_norm_nonneg: "0 \<le> np_norm v"
proof -
  have "0 \<le> sum_list (map (\<lambda>x. x * x) v)"
    by (induction v) simp_all
  then show ?thesis by (simp add: np_norm_def)
qed

lemma np_sub_self: "np_sub a a = Inr (map (\<lambda>_. 0) a)"
  by (simp add: np_sub_def map2_map_map[symmetric] zip_same_conv_map)

lemma np_norm_zeros: "np_norm (map (\<lambda>_. 0) a) = 0"
  by (induction a) (simp_all add: np_norm_def)

lemma Graph_ne_self: "Graph_ne G G = Inr False"
  by (simp add: Graph_ne_def Graph_sub_def np_sub_self np_norm_zeros)

lemma Graph_sub_nonneg: "Graph_sub H G = Inr d \<Longrightarrow> 0 \<le> d"
  using np_norm_nonneg by (auto simp: Graph_sub_def split: sum.splits)

lemma Graph_ne_of_sub: "Graph_sub H G = Inr d \<Longrightarrow> d \<noteq> 0 \<Longrightarrow> Graph_ne H G = Inr True"
  using Graph_sub_nonneg [of H G d] by (simp add: Graph_ne_def)

lemma encounter_try_present:
  "index L (Graph_str G) = Some idx \<Longrightarrow> idx < length (counts L) \<Longrightarrow>
   encounter_try L G c = (idx, L\<lparr>counts := (counts L)[idx := counts L ! idx + c]\<rparr>)"
  by (simp add: encounter_try_def)

lemma encounter_try_absent:
  "index L (Graph_str G) = None \<Longrightarrow> encounter_try L G c = encounter_append L G c"
  by (simp add: encounter_try_def)

lemma encounter_present:
  assumes "index L (Graph_str G) = Some idx" "idx < length (counts L)" "idx < length (graphs L)"
  shows "encounter L G c =
     (case Graph_ne (graphs L ! idx) G of
        Inl e \<Rightarrow> Inl e
      | Inr True \<Rightarrow> Inl (RuntimeError (degenerate_msg (Graph_str G)))
      | Inr False \<Rightarrow> Inr idx,
      L\<lparr>counts := (counts L)[idx := counts L ! idx + c]\<rparr>)"
  using assms
  by (simp add: encounter_def encounter_try_present split: sum.splits bool.splits)

lemma encounter_absent:
  assumes "index L (Graph_str G) = None"
  shows "encounter L G c = (Inr (length (graphs L)), snd (encounter_append L G c))"
  using assms
  by (simp add: encounter_def encounter_try_absent encounter_append_def Graph_ne_self)

lemma lib_ok_init: "lib_ok GraphLibrary_init"
  by (simp add: lib_ok_def GraphLibrary_init_def)

lemma lib_ok_encounter: "lib_ok L \<Longrightarrow> lib_ok (snd (encounter L G c))"
proof (cases "index L (Graph_str G)")
  case None
  assume "lib_ok L"
  then show ?thesis
    using None
    by (fastforce simp: encounter_absent encounter_append_def lib_ok_def nth_append less_Suc_eq)
next
  case (Some idx)
  assume ok: "lib_ok L"
  then have "idx < length (counts L)" "idx < length (graphs L)"
    using Some by (auto simp: lib_ok_def)
  then show ?thesis
    using ok Some by (simp add: encounter_present lib_ok_def)
qed

lemma str_nat_digit: "n < 10 \<Longrightarrow> str_nat n = [''0123456789'' ! n]"
  by (simp add: str_nat.simps)

lemma g1_str: "Graph_str g1 = ''4:6:[[1, 2]]''"
  by (simp add: Graph_str_def g1_def Graph_init_def sum_all_def str_list_def str_nat_digit)

lemma g2_str: "Graph_str g2 = ''4:6:[[1, 2]]''"
  by (simp add: Graph_str_def g2_def Graph_init_def sum_all_def str_list_def str_nat_digit)

lemma g1_ngdv: "ngdv g1 = [1, 0]"
  by (simp add: g1_def Graph_init_def sum_all_def)

lemma g2_ngdv: "ngdv g2 = [2 / 3, 1 / 3]"
  by (simp add: g2_def Graph_init_def sum_all_def)

lemma g1_g2_sub: "Graph_sub g1 g2 = Inr (sqrt (2 / 9))"
  by (simp add: Graph_sub_def np_sub_def np_norm_def g1_ngdv g2_ngdv)

lemma lib1_ok: "lib_ok lib1"
  by (simp add: lib_ok_def lib1_def g1_str)

lemma lib1_reached: "lib1 = snd (encounter GraphLibrary_init g1 1)"
  by (simp add: encounter_absent GraphLibrary_init_def encounter_append_def lib1_def g1_str)

text \<open>
  Claim C3. In a well-formed library, when the signature of the presented
  graph is already indexed and the graph stored under it is at a nonzero
  distance from the presented one (two graphs with one signature string), then
  \<^verbatim>\<open>encounter\<close> raises the RuntimeError "Found degenerate GDD"; it does not
  return an index.
\<close>
theorem encounter_collision_raises:
  assumes "lib_ok L"
    and "index L (Graph_str G) = Some idx"
    and "Graph_sub (graphs L ! idx) G = Inr d"
    and "d \<noteq> 0"
  shows "Graph_str (graphs L ! idx) = Graph_str G \<and>
         fst (encounter L G c) = Inl (RuntimeError (degenerate_msg (Graph_str G)))"
proof -
  from assms(1,2) have bounds: "idx < length (counts L)" "idx < length (graphs L)"
    and same: "Graph_str (graphs L ! idx) = Graph_str G"
    by (auto simp: lib_ok_def)
  from assms(3,4) have "Graph_ne (graphs L ! idx) G = Inr True"
    by (rule Graph_ne_of_sub)
  with assms(2) bounds same show ?thesis
    by (simp add: encounter_present)
qed

theorem encounter_collision_raises_witness:
  "lib_ok lib1 \<and> index lib1 (Graph_str g2) = Some 0 \<and>
   Graph_sub (graphs lib1 ! 0) g2 = Inr (sqrt (2 / 9)) \<and> sqrt (2 / 9) \<noteq> (0::real) \<and>
   Graph_str (graphs lib1 ! 0) = Graph_str g2 \<and>
   fst (encounter lib1 g2 1) = Inl (RuntimeError (degenerate_msg (Graph_str g2)))"
proof -
  have a: "index lib1 (Graph_str g2) = Some 0"
    by (simp add: lib1_def g2_str)
  have b: "Graph_sub (graphs lib1 ! 0) g2 = Inr (sqrt (2 / 9))"
    by (simp add: lib1_def g1_g2_sub)
  have c: "sqrt (2 / 9) \<noteq> (0::real)"
    by simp
  show ?thesis
    using encounter_collision_raises [OF lib1_ok a b c, of 1] lib1_ok a b c by simp
qed

text \<open>
  The same for a pair presented in turn: once the first graph has been
  appended under a new signature, presenting a second graph with that signature
  at nonzero distance raises.
\<close>

lemma encounter_pair_collision:
  assumes "lib_ok L" and "index L (Graph_str G1) = None"
    and "Graph_str G2 = Graph_str G1" and "Graph_sub G1 G2 = Inr d" and "d \<noteq> 0"
  shows "fst (encounter (snd (encounter L G1 c1)) G2 c2) =
         Inl (RuntimeError (degenerate_msg (Graph_str G2)))"
proof -
  let ?L1 = "snd (encounter_append L G1 c1)"
  have len: "length (counts L) = length (graphs L)"
    using assms(1) by (simp add: lib_ok_def)
  have first: "snd (encounter L G1 c1) = ?L1"
    using assms(2) by (simp add: encounter_absent)
  have i1: "index ?L1 (Graph_str G2) = Some (length (graphs L))"
    "length (graphs L) < length (counts ?L1)" "length (graphs L) < length (graphs ?L1)"
    "graphs ?L1 ! length (graphs L) = G1"
    using assms(3) by (simp_all add: encounter_append_def len)
  have "Graph_ne G1 G2 = Inr True"
    using assms(4,5) by (rule Graph_ne_of_sub)
  then show ?thesis
    unfolding first using i1 by (simp add: encounter_present)
qed

lemma encounter_state: "snd (encounter L G c) = snd (encounter_try L G c)"
  by (simp add: encounter_def split: prod.splits sum.splits bool.splits)

text \<open>
  Claim C10. \<^verbatim>\<open>encounter\<close> changes the library before it verifies
  structural identity: the library it leaves behind is always the one its
  \<^verbatim>\<open>try\<close>/\<^verbatim>\<open>except\<close> block produced. When the signature is absent the
  graph, its signature, its count and its index entry are appended first, and
  the check then reads the appended graph at the new index (it compares the
  graph with itself and returns the index). When the signature is indexed the
  stored count is incremented first, whatever the check decides. So whenever
  the integrity error is raised the count has already been incremented: for a
  nonzero \<^verbatim>\<open>count\<close> the library differs from the one before the call.
\<close>

theorem encounter_not_atomic:
  "snd (encounter L G c) = snd (encounter_try L G c) \<and>
   (index L (Graph_str G) = None \<longrightarrow>
      encounter L G c =
        (Inr (length (graphs L)),
         L\<lparr>sigs := sigs L @ [Graph_str G], graphs := graphs L @ [G],
           counts := counts L @ [c],
           index := (index L)(Graph_str G \<mapsto> length (graphs L))\<rparr>) \<and>
      length (graphs L) < length (graphs (snd (encounter L G c))) \<and>
      graphs (snd (encounter L G c)) ! length (graphs L) = G) \<and>
   (\<forall>idx. index L (Graph_str G) = Some idx \<and> idx < length (counts L) \<longrightarrow>
      snd (encounter L G c) = L\<lparr>counts := (counts L)[idx := counts L ! idx + c]\<rparr>) \<and>
   (\<forall>msg. fst (encounter L G c) = Inl (RuntimeError msg) \<longrightarrow>
      (\<exists>idx. index L (Graph_str G) = Some idx \<and> idx < length (counts L) \<and>
             snd (encounter L G c) = L\<lparr>counts := (counts L)[idx := counts L ! idx + c]\<rparr> \<and>
             counts (snd (encounter L G c)) ! idx = counts L ! idx + c \<and>
             (c \<noteq> 0 \<longrightarrow> snd (encounter L G c) \<noteq> L)))"
proof (intro conjI impI allI)
  show "snd (encounter L G c) = snd (encounter_try L G c)"
    by (rule encounter_state)
next
  assume "index L (Graph_str G) = None"
  then show "encounter L G c =
        (Inr (length (graphs L)),
         L\<lparr>sigs := sigs L @ [Graph_str G], graphs := graphs L @ [G],
           counts := counts L @ [c],
           index := (index L)(Graph_str G \<mapsto> length (graphs L))\<rparr>)"
    by (simp add: encounter_absent encounter_append_def)
next
  assume "index L (Graph_str G) = None"
  then show "length (graphs L) < length (graphs (snd (encounter L G c)))"
    by (simp add: encounter_absent encounter_append_def)
next
  assume "index L (Graph_str G) = None"
  then show "graphs (snd (encounter L G c)) ! length (graphs L) = G"
    by (simp add: encounter_absent encounter_append_def)
next
  fix idx
  assume "index L (Graph_str G) = Some idx \<and> idx < length (counts L)"
  then show "snd (encounter L G c) = L\<lparr>counts := (counts L)[idx := counts L ! idx + c]\<rparr>"
    by (simp add: encounter_state encounter_try_present)
next
  fix msg
  assume raised: "fst (encounter L G c) = Inl (RuntimeError msg)"
  show "\<exists>idx. index L (Graph_str G) = Some idx \<and> idx < length (counts L) \<and>
             snd (encounter L G c) = L\<lparr>counts := (counts L)[idx := counts L ! idx + c]\<rparr> \<and>
             counts (snd (encounter L G c)) ! idx = counts L ! idx + c \<and>
             (c \<noteq> 0 \<longrightarrow> snd (encounter L G c) \<noteq> L)"
  proof (cases "index L (Graph_str G)")
    case None
    with raised show ?thesis by (simp add: encounter_absent)
  next
    case (Some idx)
    show ?thesis
    proof (cases "idx < length (counts L)")
      case False
      with Some have "encounter_try L G c = encounter_append L G c"
        by (simp add: encounter_try_def)
      then have "fst (encounter L G c) = Inr (length (graphs L))"
        by (simp add: encounter_def encounter_append_def Graph_ne_self)
      with raised show ?thesis by simp
    next
      case True
      let ?L' = "L\<lparr>counts := (counts L)[idx := counts L ! idx + c]\<rparr>"
      have st: "snd (encounter L G c) = ?L'"
        using Some True by (simp add: encounter_state encounter_try_present)
      have cnt: "counts ?L' ! idx = counts L ! idx + c"
        using True by simp
      have "c \<noteq> 0 \<longrightarrow> ?L' \<noteq> L"
      proof
        assume "c \<noteq> 0"
        show "?L' \<noteq> L"
        proof
          assume "?L' = L"
          then have "counts ?L' ! idx = counts L ! idx" by simp
          with cnt \<open>c \<noteq> 0\<close> show False by simp
        qed
      qed
      with Some True st cnt show ?thesis by simp
    qed
  qed
qed

theorem encounter_not_atomic_witness:
  "encounter lib1 g2 1 =
     (Inl (RuntimeError (degenerate_msg (Graph_str g2))), lib1\<lparr>counts := [2]\<rparr>) \<and>
   lib1\<lparr>counts := [2]\<rparr> \<noteq> lib1 \<and>
   index GraphLibrary_init (Graph_str g1) = None \<and>
   encounter GraphLibrary_init g1 1 = (Inr 0, lib1) \<and>
   graphs lib1 ! 0 = g1"
proof -
  have ne: "Graph_ne g1 g2 = Inr True"
    using g1_g2_sub by (simp add: Graph_ne_def)
  have run: "encounter lib1 g2 1 =
     (Inl (RuntimeError (degenerate_msg (Graph_str g2))), lib1\<lparr>counts := [2]\<rparr>)"
    by (simp add: encounter_def encounter_try_def lib1_def g2_str ne)
  have changed: "lib1\<lparr>counts := [2]\<rparr> \<noteq> lib1"
    by (simp add: lib1_def)
  have absent: "index GraphLibrary_init (Graph_str g1) = None"
    by (simp add: GraphLibrary_init_def)
  have first: "encounter GraphLibrary_init g1 1 = (Inr 0, lib1)"
    by (simp add: encounter_absent GraphLibrary_init_def encounter_append_def lib1_def g1_str)
  have stored: "graphs lib1 ! 0 = g1"
    by (simp add: lib1_def)
  from encounter_not_atomic [of lib1 g2 1] encounter_not_atomic [of GraphLibrary_init g1 1]
  show ?thesis
    using run changed absent first stored by blast
qed


text \<open>
  Claim C4. In a well-formed library, for a graph whose signature is either
  not indexed or indexed at a stored graph at distance 0 from it, two calls
  \<^verbatim>\<open>encounter(g,c1)\<close> and \<^verbatim>\<open>encounter(g,c2)\<close> both return the same index;
  the second adds \<^verbatim>\<open>c2\<close> to the count at that index; the first adds
  \<^verbatim>\<open>c1\<close> to the stored count when the signature was present, and when it
  was absent it appends the graph, its signature and the count \<^verbatim>\<open>c1\<close> and
  records the signature under the new index.
\<close>
theorem encounter_twice:
  assumes "lib_ok L"
    and "case index L (Graph_str G) of None \<Rightarrow> True
         | Some i \<Rightarrow> Graph_ne (graphs L ! i) G = Inr False"
  shows "\<exists>idx L1 L2.
      encounter L G c1 = (Inr idx, L1) \<and> encounter L1 G c2 = (Inr idx, L2) \<and>
      index L1 (Graph_str G) = Some idx \<and> index L2 (Graph_str G) = Some idx \<and>
      counts L2 ! idx = counts L1 ! idx + c2 \<and>
      (case index L (Graph_str G) of
         Some i \<Rightarrow> i = idx \<and> counts L1 ! idx = counts L ! idx + c1 \<and>
                   graphs L1 = graphs L \<and> sigs L1 = sigs L \<and> index L1 = index L
       | None \<Rightarrow> idx = length (graphs L) \<and> graphs L1 = graphs L @ [G] \<and>
                 sigs L1 = sigs L @ [Graph_str G] \<and> counts L1 = counts L @ [c1] \<and>
                 index L1 = (index L)(Graph_str G \<mapsto> idx))"
proof (cases "index L (Graph_str G)")
  case None
  define idx where "idx = length (graphs L)"
  define L1 where "L1 = snd (encounter_append L G c1)"
  have len: "length (counts L) = length (graphs L)"
    using assms(1) by (simp add: lib_ok_def)
  have first: "encounter L G c1 = (Inr idx, L1)"
    using None by (simp add: encounter_absent idx_def L1_def)
  have i1: "index L1 (Graph_str G) = Some idx" "idx < length (counts L1)"
    "idx < length (graphs L1)" "graphs L1 ! idx = G"
    by (simp_all add: L1_def encounter_append_def idx_def len)
  have second: "encounter L1 G c2 =
      (Inr idx, L1\<lparr>counts := (counts L1)[idx := counts L1 ! idx + c2]\<rparr>)"
    using i1 by (simp add: encounter_present Graph_ne_self)
  show ?thesis
    using None first second i1
    by (simp add: L1_def encounter_append_def idx_def)
next
  case (Some idx)
  define L1 where "L1 = L\<lparr>counts := (counts L)[idx := counts L ! idx + c1]\<rparr>"
  have b: "idx < length (counts L)" "idx < length (graphs L)"
    using assms(1) Some by (auto simp: lib_ok_def)
  have same: "Graph_ne (graphs L ! idx) G = Inr False"
    using assms(2) Some by simp
  have first: "encounter L G c1 = (Inr idx, L1)"
    using Some b same by (simp add: encounter_present L1_def)
  have i1: "index L1 (Graph_str G) = Some idx" "idx < length (counts L1)"
    "idx < length (graphs L1)" "graphs L1 ! idx = graphs L ! idx"
    using Some b by (simp_all add: L1_def)
  have second: "encounter L1 G c2 =
      (Inr idx, L1\<lparr>counts := (counts L1)[idx := counts L1 ! idx + c2]\<rparr>)"
    using i1 same by (simp add: encounter_present)
  show ?thesis
    using Some first second i1 b
    by (simp add: L1_def)
qed

lemma g1_self: "Graph_ne (graphs lib1 ! 0) g1 = Inr False"
  by (simp add: lib1_def Graph_ne_self)

theorem encounter_twice_witness:
  "lib_ok lib1 \<and> index lib1 (Graph_str g1) = Some 0 \<and>
   Graph_ne (graphs lib1 ! 0) g1 = Inr False \<and>
   encounter lib1 g1 2 = (Inr 0, lib1\<lparr>counts := [3]\<rparr>) \<and>
   encounter (lib1\<lparr>counts := [3]\<rparr>) g1 5 = (Inr 0, lib1\<lparr>counts := [8]\<rparr>)"
proof -
  have a: "index lib1 (Graph_str g1) = Some 0"
    by (simp add: lib1_def g1_str)
  have h: "case index lib1 (Graph_str g1) of None \<Rightarrow> True
           | Some i \<Rightarrow> Graph_ne (graphs lib1 ! i) g1 = Inr False"
    by (simp add: a g1_self)
  have e1: "encounter lib1 g1 2 = (Inr 0, lib1\<lparr>counts := [3]\<rparr>)"
    by (simp add: encounter_def encounter_try_def lib1_def g1_str Graph_ne_self)
  have e2: "encounter (lib1\<lparr>counts := [3]\<rparr>) g1 5 = (Inr 0, lib1\<lparr>counts := [8]\<rparr>)"
    by (simp add: encounter_def encounter_try_def lib1_def g1_str Graph_ne_self)
  show ?thesis
    using encounter_twice [OF lib1_ok h, of 2 5] lib1_ok a g1_self e1 e2 by simp
qed

text \<open>
  Claim C8, as amended. \<^verbatim>\<open>collect\<close> tests the type of \<^verbatim>\<open>others[0]\<close>
  only: when the argument is a single value that is not a GraphLibrary, or a
  list whose first element is not one, the call raises the TypeError and the
  library is unchanged.
\<close>
theorem collect_rejects_nonlibrary_head:
  assumes "case arg of PyScalar x \<Rightarrow> x = NonLib | PyList xs \<Rightarrow> xs \<noteq> [] \<and> hd xs = NonLib"
  shows "collect L arg cnt = (Inl (TypeError collect_msg), L)"
  using assms
  by (cases arg) (auto simp: collect_def split: list.splits pyobj.splits)

theorem collect_rejects_nonlibrary_head_witness:
  "collect lib1 (PyList [NonLib, Lib lib1]) True = (Inl (TypeError collect_msg), lib1) \<and>
   collect lib1 (PyScalar NonLib) True = (Inl (TypeError collect_msg), lib1)"
  using collect_rejects_nonlibrary_head [of "PyList [NonLib, Lib lib1]" lib1 True]
    collect_rejects_nonlibrary_head [of "PyScalar NonLib" lib1 True]
  by simp

text \<open>
  A list whose first element is a library and whose second is not passes the
  test: the first library is merged, then reading \<^verbatim>\<open>other.graphs\<close> of the
  second element raises AttributeError, and the receiving library has changed.
\<close>

theorem collect_mixed_list_counterexample:
  "collect GraphLibrary_init (PyList [Lib lib1, NonLib]) True =
     (Inl (AttributeError ''graphs''), lib1) \<and> lib1 \<noteq> GraphLibrary_init"
proof -
  have e: "encounter GraphLibrary_init g1 1 = (Inr 0, lib1)"
    by (simp add: encounter_absent GraphLibrary_init_def encounter_append_def lib1_def g1_str)
  have "collect_graphs GraphLibrary_init lib1 True [0..<length (graphs lib1)] = (Inr (), lib1)"
    using e by (simp add: lib1_def)
  then have "collect GraphLibrary_init (PyList [Lib lib1, NonLib]) True =
     (Inl (AttributeError ''graphs''), lib1)"
    by (simp add: collect_def)
  moreover have "lib1 \<noteq> GraphLibrary_init"
    by (simp add: lib1_def GraphLibrary_init_def)
  ultimately show ?thesis by simp
qed

text \<open>Merging keeps a library well-formed, whether it returns or raises.\<close>

lemma lib_ok_collect_graphs: "lib_ok L \<Longrightarrow> lib_ok (snd (collect_graphs L other cnt idxs))"
proof (induction idxs arbitrary: L)
  case Nil
  then show ?case by simp
next
  case (Cons i idxs)
  obtain r L' where enc:
    "encounter L (graphs other ! i) (if cnt then counts other ! i else 0) = (r, L')"
    by (cases "encounter L (graphs other ! i) (if cnt then counts other ! i else 0)")
  have ok': "lib_ok L'"
    using lib_ok_encounter [OF Cons.prems, of "graphs other ! i"
        "if cnt then counts other ! i else 0"] enc by simp
  show ?case
  proof (cases "cnt \<and> \<not> i < length (counts other)")
    case True
    then show ?thesis using Cons.prems by simp
  next
    case False
    show ?thesis
    proof (cases r)
      case (Inl e)
      then show ?thesis using False enc ok' by auto
    next
      case (Inr k)
      then show ?thesis using False enc Cons.IH [OF ok'] by auto
    qed
  qed
qed

lemma lib_ok_collect_others: "lib_ok L \<Longrightarrow> lib_ok (snd (collect_others L others cnt))"
proof (induction others arbitrary: L)
  case Nil
  then show ?case by simp
next
  case (Cons x rest)
  show ?case
  proof (cases x)
    case NonLib
    then show ?thesis using Cons.prems by simp
  next
    case (Lib other)
    obtain r L' where cg:
      "collect_graphs L other cnt [0..<length (graphs other)] = (r, L')"
      by (cases "collect_graphs L other cnt [0..<length (graphs other)]")
    have ok': "lib_ok L'"
      using lib_ok_collect_graphs [OF Cons.prems, of other cnt "[0..<length (graphs other)]"] cg
      by simp
    show ?thesis
    proof (cases r)
      case (Inl e)
      then show ?thesis using Lib cg ok' by simp
    next
      case (Inr u)
      then show ?thesis using Lib cg Cons.IH [OF ok'] by simp
    qed
  qed
qed

lemma lib_ok_collect: "lib_ok L \<Longrightarrow> lib_ok (snd (collect L arg cnt))"
proof -
  assume ok: "lib_ok L"
  define others where "others = (case arg of PyList xs \<Rightarrow> xs | PyScalar x \<Rightarrow> [x])"
  show ?thesis
  proof (cases others)
    case Nil
    then show ?thesis using ok by (simp add: collect_def others_def)
  next
    case (Cons x rest)
    show ?thesis
    proof (cases x)
      case NonLib
      then show ?thesis using ok Cons by (simp add: collect_def others_def)
    next
      case (Lib other)
      then have "collect L arg cnt = collect_others L others cnt"
        using Cons by (simp add: collect_def others_def)
      then show ?thesis using lib_ok_collect_others [OF ok] by simp
    qed
  qed
qed

section \<open>Properties of Ensemble\<close>

lemma map_of_dict_set: "map_of (dict_set d k v) k' = (if k' = k then Some v else map_of d k')"
  by (induction d) auto

lemma dict_has_set: "dict_has (dict_set d k v) k' \<longleftrightarrow> k' = k \<or> dict_has d k'"
  by (simp add: dict_has_def map_of_dict_set)

lemma dict_has_iff: "dict_has d k \<longleftrightarrow> k \<in> fst ` set d"
  by (simp add: dict_has_def map_of_eq_None_iff)

text \<open>The lines printed only grow, and keys are never removed.\<close>

lemma merge_lookups_mono:
  "merge_lookups mine items out = (mine', out') \<Longrightarrow>
   set out \<subseteq> set out' \<and> (dict_has mine k \<longrightarrow> dict_has mine' k)"
proof (induction items arbitrary: mine out)
  case Nil
  then show ?case by simp
next
  case (Cons kv items)
  obtain key val where kv: "kv = (key, val)" by (cases kv)
  from Cons.prems have run: "merge_lookups (dict_set mine key val) items
      (if dict_has mine key then out @ [dup_warning] else out) = (mine', out')"
    by (simp add: kv)
  from Cons.IH [OF run] show ?case
    by (auto simp: dict_has_set split: if_splits)
qed

lemma merge_lookups_keys:
  "merge_lookups mine items out = (mine', out') \<Longrightarrow> dict_has items k \<Longrightarrow> dict_has mine' k"
proof (induction items arbitrary: mine out)
  case Nil
  then show ?case by (simp add: dict_has_def)
next
  case (Cons kv items)
  obtain key val where kv: "kv = (key, val)" by (cases kv)
  from Cons.prems(1) have run: "merge_lookups (dict_set mine key val) items
      (if dict_has mine key then out @ [dup_warning] else out) = (mine', out')"
    by (simp add: kv)
  show ?case
  proof (cases "k = key")
    case True
    have "dict_has (dict_set mine key val) k"
      by (simp add: dict_has_set True)
    with merge_lookups_mono [OF run, of k] show ?thesis by simp
  next
    case False
    with Cons.prems(2) have "dict_has items k"
      by (simp add: dict_has_def kv)
    with Cons.IH [OF run] show ?thesis by simp
  qed
qed

text \<open>A key present on both sides is reported.\<close>

lemma merge_lookups_flags:
  "merge_lookups mine items out = (mine', out') \<Longrightarrow> dict_has mine k \<Longrightarrow> dict_has items k \<Longrightarrow>
   dup_warning \<in> set out'"
proof (induction items arbitrary: mine out)
  case Nil
  then show ?case by (simp add: dict_has_def)
next
  case (Cons kv items)
  obtain key val where kv: "kv = (key, val)" by (cases kv)
  from Cons.prems(1) have run: "merge_lookups (dict_set mine key val) items
      (if dict_has mine key then out @ [dup_warning] else out) = (mine', out')"
    by (simp add: kv)
  show ?case
  proof (cases "k = key")
    case True
    with Cons.prems(2) have "dup_warning \<in> set (if dict_has mine key then out @ [dup_warning] else out)"
      by simp
    with merge_lookups_mono [OF run, of k] show ?thesis by auto
  next
    case False
    with Cons.prems(3) have "dict_has items k"
      by (simp add: dict_has_def kv)
    moreover have "dict_has (dict_set mine key val) k"
      using Cons.prems(2) by (simp add: dict_has_set)
    ultimately show ?thesis using Cons.IH [OF run] by simp
  qed
qed

text \<open>The value left under a key of the merged items is the last one merged.\<close>

lemma merge_lookups_value:
  "merge_lookups mine items out = (mine', out') \<Longrightarrow>
   map_of mine' k = (case map_of (rev items) k of Some v \<Rightarrow> Some v | None \<Rightarrow> map_of mine k)"
proof (induction items arbitrary: mine out)
  case Nil
  then show ?case by simp
next
  case (Cons kv items)
  obtain key val where kv: "kv = (key, val)" by (cases kv)
  from Cons.prems(1) have run: "merge_lookups (dict_set mine key val) items
      (if dict_has mine key then out @ [dup_warning] else out) = (mine', out')"
    by (simp add: kv)
  show ?case
    using Cons.IH [OF run]
    by (auto simp: kv map_of_dict_set map_add_def split: option.splits)
qed

lemma collect_loop_step:
  assumes "Ensemble_collect_loop self (Ens other # rest) out = (Inr (), self', out')"
  obtains lib' mine out1 where
    "merge_lookups (lookups self) (lookups other) out = (mine, out1)"
    "Ensemble_collect_loop (self\<lparr>library := lib', lookups := mine\<rparr>) rest out1 =
       (Inr (), self', out')"
proof -
  obtain r lib' where c: "collect (library self) (PyScalar (Lib (library other))) True = (r, lib')"
    by (cases "collect (library self) (PyScalar (Lib (library other))) True")
  obtain mine out1 where m: "merge_lookups (lookups self) (lookups other) out = (mine, out1)"
    by (cases "merge_lookups (lookups self) (lookups other) out")
  from assms c m have
    "Ensemble_collect_loop (self\<lparr>library := lib', lookups := mine\<rparr>) rest out1 =
       (Inr (), self', out')"
    by (cases r) simp_all
  with m that show ?thesis by blast
qed

lemma collect_loop_mono:
  "Ensemble_collect_loop self others out = (Inr (), self', out') \<Longrightarrow>
   set out \<subseteq> set out' \<and> (dict_has (lookups self) k \<longrightarrow> dict_has (lookups self') k)"
proof (induction others arbitrary: self out)
  case Nil
  then show ?case by simp
next
  case (Cons x rest)
  show ?case
  proof (cases x)
    case NonEns
    with Cons.prems show ?thesis by simp
  next
    case (Ens other)
    from Cons.prems obtain lib' mine out1 where
      m: "merge_lookups (lookups self) (lookups other) out = (mine, out1)" and
      l: "Ensemble_collect_loop (self\<lparr>library := lib', lookups := mine\<rparr>) rest out1 =
            (Inr (), self', out')"
      unfolding Ens by (rule collect_loop_step)
    from merge_lookups_mono [OF m, of k] Cons.IH [OF l] show ?thesis by auto
  qed
qed

lemma collect_loop_flags:
  "Ensemble_collect_loop self others out = (Inr (), self', out') \<Longrightarrow>
   j < length others \<Longrightarrow> others ! j = Ens B \<Longrightarrow> dict_has (lookups B) key \<Longrightarrow>
   dict_has (lookups self) key \<or> (\<exists>i<j. \<exists>A. others ! i = Ens A \<and> dict_has (lookups A) key) \<Longrightarrow>
   dup_warning \<in> set out' \<and> dict_has (lookups self') key"
proof (induction others arbitrary: self out j)
  case Nil
  then show ?case by simp
next
  case (Cons x rest)
  show ?case
  proof (cases x)
    case NonEns
    with Cons.prems(1) show ?thesis by simp
  next
    case (Ens other)
    from Cons.prems(1) obtain lib' mine out1 where
      m: "merge_lookups (lookups self) (lookups other) out = (mine, out1)" and
      l: "Ensemble_collect_loop (self\<lparr>library := lib', lookups := mine\<rparr>) rest out1 =
            (Inr (), self', out')"
      unfolding Ens by (rule collect_loop_step)
    let ?self1 = "self\<lparr>library := lib', lookups := mine\<rparr>"
    show ?thesis
    proof (cases j)
      case 0
      with Cons.prems(3) Ens have B: "B = other" by simp
      from 0 Cons.prems(5) have here: "dict_has (lookups self) key" by simp
      from merge_lookups_flags [OF m here] Cons.prems(4) B
      have "dup_warning \<in> set out1" by simp
      moreover from merge_lookups_mono [OF m, of key] here
      have "dict_has (lookups ?self1) key" by simp
      ultimately show ?thesis
        using collect_loop_mono [OF l, of key] by auto
    next
      case (Suc j')
      from Suc Cons.prems(2,3) have j': "j' < length rest" "rest ! j' = Ens B" by simp_all
      have "dict_has (lookups ?self1) key \<or>
            (\<exists>i<j'. \<exists>A. rest ! i = Ens A \<and> dict_has (lookups A) key)"
      proof -
        from Cons.prems(5) consider "dict_has (lookups self) key"
          | i A where "i < j" "(x # rest) ! i = Ens A" "dict_has (lookups A) key"
          by blast
        then show ?thesis
        proof cases
          case 1
          with merge_lookups_mono [OF m, of key] show ?thesis by simp
        next
          case 2
          show ?thesis
          proof (cases i)
            case 0
            with 2 Ens have "dict_has (lookups other) key" by simp
            with merge_lookups_keys [OF m] show ?thesis by simp
          next
            case (Suc i')
            with 2 \<open>j = Suc j'\<close> have "i' < j'" "rest ! i' = Ens A" by simp_all
            with 2(3) show ?thesis by blast
          qed
        qed
      qed
      from Cons.IH [OF l j' Cons.prems(4) this] show ?thesis .
    qed
  qed
qed

lemma dict_set_length:
  "length (dict_set d k v) = (if dict_has d k then length d else Suc (length d))"
  by (induction d) (auto simp: dict_has_def)

text \<open>
  Every merged entry either creates a new key or prints one warning, and
  nothing else is printed.
\<close>

lemma merge_lookups_count:
  "merge_lookups mine items out = (mine', out') \<Longrightarrow>
   \<exists>n. out' = out @ replicate n dup_warning \<and> n + length mine' = length mine + length items"
proof (induction items arbitrary: mine out)
  case Nil
  then show ?case by simp
next
  case (Cons kv items)
  obtain key val where kv: "kv = (key, val)" by (cases kv)
  from Cons.prems have run: "merge_lookups (dict_set mine key val) items
      (if dict_has mine key then out @ [dup_warning] else out) = (mine', out')"
    by (simp add: kv)
  from Cons.IH [OF run] obtain n where
    n: "out' = (if dict_has mine key then out @ [dup_warning] else out) @ replicate n dup_warning"
       "n + length mine' = length (dict_set mine key val) + length items"
    by blast
  show ?case
  proof (cases "dict_has mine key")
    case True
    with n have "out' = out @ replicate (Suc n) dup_warning"
      "Suc n + length mine' = length mine + length (kv # items)"
      by (simp_all add: dict_set_length replicate_app_Cons_same)
    then show ?thesis by blast
  next
    case False
    with n have "out' = out @ replicate n dup_warning"
      "n + length mine' = length mine + length (kv # items)"
      by (simp_all add: dict_set_length)
    then show ?thesis by blast
  qed
qed

lemma collect_loop_count:
  "Ensemble_collect_loop self others out = (Inr (), self', out') \<Longrightarrow>
   \<exists>n. out' = out @ replicate n dup_warning \<and>
       n + length (lookups self') = length (lookups self) + merged_entries others"
proof (induction others arbitrary: self out)
  case Nil
  then show ?case by (simp add: merged_entries_def)
next
  case (Cons x rest)
  show ?case
  proof (cases x)
    case NonEns
    with Cons.prems show ?thesis by simp
  next
    case (Ens other)
    from Cons.prems obtain lib' mine out1 where
      m: "merge_lookups (lookups self) (lookups other) out = (mine, out1)" and
      l: "Ensemble_collect_loop (self\<lparr>library := lib', lookups := mine\<rparr>) rest out1 =
            (Inr (), self', out')"
      unfolding Ens by (rule collect_loop_step)
    from merge_lookups_count [OF m] obtain a where
      a: "out1 = out @ replicate a dup_warning"
         "a + length mine = length (lookups self) + length (lookups other)"
      by blast
    from Cons.IH [OF l] obtain b where
      b: "out' = out1 @ replicate b dup_warning"
         "b + length (lookups self') = length mine + merged_entries rest"
      by auto
    have "out' = out @ replicate (a + b) dup_warning"
      using a(1) b(1) by (simp add: replicate_add)
    moreover have "a + b + length (lookups self') =
        length (lookups self) + merged_entries (x # rest)"
      using a(2) b(2) by (simp add: merged_entries_def Ens)
    ultimately show ?thesis by blast
  qed
qed

lemma map_of_rev_absent: "\<not> dict_has items k \<Longrightarrow> map_of (rev items) k = None"
  by (simp add: dict_has_def map_of_eq_None_iff)

lemma map_of_rev_distinct: "distinct (map fst xs) \<Longrightarrow> map_of (rev xs) k = map_of xs k"
proof (induction xs)
  case Nil
  then show ?case by simp
next
  case (Cons kv xs)
  then have "fst kv \<notin> fst ` set xs" and IH: "map_of (rev xs) k = map_of xs k" by auto
  then have "map_of xs (fst kv) = None" by (simp add: map_of_eq_None_iff)
  with IH show ?case
    by (cases kv) (auto simp: map_add_def split: option.splits)
qed

text \<open>Ensembles that do not hold a key leave its entry alone.\<close>

lemma collect_loop_unchanged:
  "Ensemble_collect_loop self others out = (Inr (), self', out') \<Longrightarrow>
   \<forall>C. Ens C \<in> set others \<longrightarrow> \<not> dict_has (lookups C) key \<Longrightarrow>
   map_of (lookups self') key = map_of (lookups self) key"
proof (induction others arbitrary: self out)
  case Nil
  then show ?case by simp
next
  case (Cons x rest)
  show ?case
  proof (cases x)
    case NonEns
    with Cons.prems(1) show ?thesis by simp
  next
    case (Ens other)
    from Cons.prems(1) obtain lib' mine out1 where
      m: "merge_lookups (lookups self) (lookups other) out = (mine, out1)" and
      l: "Ensemble_collect_loop (self\<lparr>library := lib', lookups := mine\<rparr>) rest out1 =
            (Inr (), self', out')"
      unfolding Ens by (rule collect_loop_step)
    from Cons.prems(2) Ens have "\<not> dict_has (lookups other) key" by simp
    with merge_lookups_value [OF m, of key] have "map_of mine key = map_of (lookups self) key"
      by (simp add: map_of_rev_absent)
    moreover from Cons.prems(2) have "\<forall>C. Ens C \<in> set rest \<longrightarrow> \<not> dict_has (lookups C) key"
      by simp
    from Cons.IH [OF l this] have "map_of (lookups self') key = map_of mine key" by simp
    ultimately show ?thesis by simp
  qed
qed

text \<open>The entry of a key ends as the value of the last Ensemble that holds it.\<close>

lemma collect_loop_last_value:
  "Ensemble_collect_loop self others out = (Inr (), self', out') \<Longrightarrow>
   j < length others \<Longrightarrow> others ! j = Ens B \<Longrightarrow> dict_has (lookups B) key \<Longrightarrow>
   \<forall>j'. j < j' \<and> j' < length others \<longrightarrow> (\<forall>C. others ! j' = Ens C \<longrightarrow> \<not> dict_has (lookups C) key) \<Longrightarrow>
   map_of (lookups self') key = map_of (rev (lookups B)) key"
proof (induction others arbitrary: self out j)
  case Nil
  then show ?case by simp
next
  case (Cons x rest)
  show ?case
  proof (cases x)
    case NonEns
    with Cons.prems(1) show ?thesis by simp
  next
    case (Ens other)
    from Cons.prems(1) obtain lib' mine out1 where
      m: "merge_lookups (lookups self) (lookups other) out = (mine, out1)" and
      l: "Ensemble_collect_loop (self\<lparr>library := lib', lookups := mine\<rparr>) rest out1 =
            (Inr (), self', out')"
      unfolding Ens by (rule collect_loop_step)
    show ?thesis
    proof (cases j)
      case 0
      with Cons.prems(3) Ens have B: "B = other" by simp
      have "map_of (rev (lookups B)) key \<noteq> None"
        using Cons.prems(4) by (simp add: dict_has_def map_of_eq_None_iff)
      with merge_lookups_value [OF m, of key] B
      have here: "map_of mine key = map_of (rev (lookups B)) key"
        by (auto split: option.splits)
      have "\<forall>C. Ens C \<in> set rest \<longrightarrow> \<not> dict_has (lookups C) key"
      proof (intro allI impI)
        fix C assume "Ens C \<in> set rest"
        then obtain p where "p < length rest" "rest ! p = Ens C"
          by (auto simp: in_set_conv_nth)
        with Cons.prems(5) 0 show "\<not> dict_has (lookups C) key"
          by (auto dest: spec [where x = "Suc p"])
      qed
      from collect_loop_unchanged [OF l this] here show ?thesis by simp
    next
      case (Suc j')
      from Suc Cons.prems(2,3) have j': "j' < length rest" "rest ! j' = Ens B" by simp_all
      have "\<forall>p. j' < p \<and> p < length rest \<longrightarrow>
              (\<forall>C. rest ! p = Ens C \<longrightarrow> \<not> dict_has (lookups C) key)"
      proof (intro allI impI)
        fix p C assume "j' < p \<and> p < length rest" "rest ! p = Ens C"
        with Cons.prems(5) Suc show "\<not> dict_has (lookups C) key"
          by (auto dest: spec [where x = "Suc p"])
      qed
      from Cons.IH [OF l j' Cons.prems(4) this] show ?thesis .
    qed
  qed
qed

text \<open>
  Claim C7. On the coordinator, when \<^verbatim>\<open>collect\<close> returns and two of the
  gathered Ensembles hold a lookup under the same frame index, the later one
  being the last that holds it: the lines printed are warnings "duplicate
  lookup key detected" followed by the closing line, one warning for every
  merged entry that created no new key (every overwrite is announced, and
  nothing else is), at least one of them here; and the existing entry has been
  replaced, with that warning, by the value of the later Ensemble.
\<close>

theorem collect_flags_duplicate_key:
  assumes "Ensemble_collect self (EnsList others) = (Inr (), self', out)"
    and "master self"
    and "i < j" and "j < length others"
    and "others ! i = Ens A" and "others ! j = Ens B"
    and "dict_has (lookups A) key" and "dict_has (lookups B) key"
    and "distinct (map fst (lookups B))"
    and "\<forall>j'. j < j' \<and> j' < length others \<longrightarrow>
           (\<forall>C. others ! j' = Ens C \<longrightarrow> \<not> dict_has (lookups C) key)"
  shows "\<exists>n. out = replicate n dup_warning @ [complete_msg (length (graphs (library self')))] \<and>
             n + length (lookups self') = length (lookups self) + merged_entries others \<and>
             0 < n \<and>
             map_of (lookups self') key = map_of (lookups B) key"
proof -
  from assms(3,4) obtain x rest where o: "others = x # rest"
    by (cases others) auto
  obtain r s1 out1 where l: "Ensemble_collect_loop self others [] = (r, s1, out1)"
    by (cases "Ensemble_collect_loop self others []")
  have x: "\<exists>other. x = Ens other"
    using assms(1,2) o by (cases x) (simp_all add: Ensemble_collect_def)
  with assms(1,2) o l have r: "r = Inr ()" "s1 = self'"
      "out = out1 @ [complete_msg (length (graphs (library s1)))]"
    by (cases r; auto simp: Ensemble_collect_def)+
  note run = l [unfolded r(1,2)]
  from collect_loop_count [OF run] obtain n where
    n: "out1 = replicate n dup_warning"
       "n + length (lookups self') = length (lookups self) + merged_entries others"
    by auto
  have "dict_has (lookups self) key \<or>
        (\<exists>i<j. \<exists>A. others ! i = Ens A \<and> dict_has (lookups A) key)"
    using assms(3,5,7) by blast
  from collect_loop_flags [OF run assms(4) assms(6) assms(8) this]
  have "dup_warning \<in> set out1" by simp
  with n(1) have pos: "0 < n" by (cases n) simp_all
  from collect_loop_last_value [OF run assms(4) assms(6) assms(8) assms(10)]
  have "map_of (lookups self') key = map_of (lookups B) key"
    by (simp add: map_of_rev_distinct [OF assms(9)])
  with n pos r show ?thesis by simp
qed

theorem collect_flags_duplicate_key_witness:
  "Ensemble_collect (Ensemble_init True) (EnsList [Ens ens_c, Ens ens_d, Ens ens_e]) =
     (Inr (),
      (Ensemble_init True)\<lparr>lookups := [(0, [(''s'', [2])]), (1, [(''t'', [1])]),
                                        (2, [(''u'', [0])]), (3, [(''v'', [0])])]\<rparr>,
      [dup_warning, dup_warning, complete_msg 0]) \<and>
   merged_entries [Ens ens_c, Ens ens_d, Ens ens_e] = 6 \<and>
   (\<exists>n. [dup_warning, dup_warning, complete_msg 0] =
          replicate n dup_warning @ [complete_msg 0] \<and> n + 4 = 6 \<and> 0 < n) \<and>
   map_of (lookups ens_d) 0 = Some [(''s'', [2])]"
proof -
  let ?others = "[Ens ens_c, Ens ens_d, Ens ens_e]"
  have run: "Ensemble_collect (Ensemble_init True) (EnsList ?others) =
     (Inr (),
      (Ensemble_init True)\<lparr>lookups := [(0, [(''s'', [2])]), (1, [(''t'', [1])]),
                                        (2, [(''u'', [0])]), (3, [(''v'', [0])])]\<rparr>,
      [dup_warning, dup_warning, complete_msg 0])"
    by (simp add: Ensemble_collect_def Ensemble_init_def ens_c_def ens_d_def ens_e_def
        collect_def GraphLibrary_init_def dict_has_def)
  have m: "master (Ensemble_init True)"
    by (simp add: Ensemble_init_def)
  have a: "dict_has (lookups ens_c) 0" and b: "dict_has (lookups ens_d) 0"
    and d: "distinct (map fst (lookups ens_d))"
    and e: "\<not> dict_has (lookups ens_e) 0"
    by (simp_all add: ens_c_def ens_d_def ens_e_def dict_has_def Ensemble_init_def)
  have last: "\<forall>j'. 1 < j' \<and> j' < length ?others \<longrightarrow>
           (\<forall>C. ?others ! j' = Ens C \<longrightarrow> \<not> dict_has (lookups C) 0)"
  proof (intro allI impI)
    fix j' C assume "1 < j' \<and> j' < length ?others" "?others ! j' = Ens C"
    then have "j' = 2" by simp
    with \<open>?others ! j' = Ens C\<close> have "C = ens_e" by simp
    with e show "\<not> dict_has (lookups C) 0" by simp
  qed
  have i: "(0::nat) < 1" and j: "1 < length ?others"
    and A: "?others ! 0 = Ens ens_c" and B: "?others ! 1 = Ens ens_d"
    by simp_all
  have me: "merged_entries ?others = 6"
    by (simp add: merged_entries_def ens_c_def ens_d_def ens_e_def Ensemble_init_def)
  have val: "map_of (lookups ens_d) 0 = Some [(''s'', [2])]"
    by (simp add: ens_d_def Ensemble_init_def)
  from collect_flags_duplicate_key [OF run m i j A B a b d last]
  show ?thesis
    using run me val by (simp add: Ensemble_init_def)
qed


lemma set_cell_nth:
  "i < length D \<Longrightarrow> c < length (D ! i) \<Longrightarrow>
   set_cell D i c v ! i' ! c' = (if i' = i \<and> c' = c then v else D ! i' ! c')"
  by (cases "i' = i"; cases "c' = c"; cases "i' < length D")
     (simp_all add: set_cell_def)

text \<open>
  A cell changes only when one of the consumed (task, result) pairs addresses
  it, also when the loop stops with an exception.
\<close>

lemma assemble_untouched:
  "assemble lm D tasks results = (r, D') \<Longrightarrow>
   \<forall>(t, d) \<in> set (zip tasks results). \<not> (fst t = i \<and> first_pos lm (snd t) = Some c) \<Longrightarrow>
   D' ! i ! c = D ! i ! c"
proof (induction lm D tasks results rule: assemble.induct)
  case (1 lm D tasks)
  then show ?case by simp
next
  case (2 lm D d ds)
  then show ?case by simp
next
  case (3 lm D i' j tasks d ds)
  show ?case
  proof (cases "first_pos lm j")
    case None
    with "3.prems"(1) show ?thesis by simp
  next
    case (Some jid)
    show ?thesis
    proof (cases "i' < length D \<and> jid < length (D ! i')")
      case False
      with Some "3.prems"(1) show ?thesis by auto
    next
      case True
      with Some "3.prems"(1) have run:
        "assemble lm (set_cell D i' jid (Fin d)) tasks ds = (r, D')"
        by simp
      from "3.prems"(2) have rest:
        "\<forall>(t, d) \<in> set (zip tasks ds). \<not> (fst t = i \<and> first_pos lm (snd t) = Some c)"
        and here: "\<not> (i' = i \<and> jid = c)"
        using Some by auto
      from "3.IH" [OF Some True run rest]
      have "D' ! i ! c = set_cell D i' jid (Fin d) ! i ! c" .
      also have "\<dots> = D ! i ! c"
        using True here by (auto simp: set_cell_nth)
      finally show ?thesis .
    qed
  qed
qed

lemma outlier_stage_dists: "dists (snd (outlier_stage good_cols good_rows self D)) = dists self"
  by (simp add: outlier_stage_def Let_def split: sum.splits option.splits)

lemma dists_after_computeDists:
  assumes "master self" and "lm_sigs self = Some lms" and "lm_idx self = Some lm"
    and "computeDists good_cols good_rows self results detect = (r, self')"
  shows "dists self' = Some (replicate (length (sigs (library self))) (replicate (length lms) PInf)) \<or>
         (\<exists>r' D. assemble lm (replicate (length (sigs (library self))) (replicate (length lms) PInf))
                   (task_list (length (sigs (library self))) (length lms) lm) results = (r', D) \<and>
                 dists self' = Some D)"
proof -
  let ?n = "length (sigs (library self))" and ?m = "length lms"
  let ?D0 = "replicate ?n (replicate ?m PInf)"
  show ?thesis
  proof (cases "build_tasks ?n ?m (Some lm)")
    case (Inl e)
    with assms show ?thesis
      by (auto simp: computeDists_def Let_def)
  next
    case (Inr tasks)
    then have tasks: "tasks = task_list ?n ?m lm"
      by (auto simp: build_tasks_def task_list_def split: if_splits)
    obtain r' D where a: "assemble lm ?D0 tasks results = (r', D)"
      by (cases "assemble lm ?D0 tasks results")
    have "dists self' = Some D"
    proof (cases r')
      case (Inl e)
      with assms a Inr show ?thesis
        by (auto simp: computeDists_def Let_def)
    next
      case r': (Inr u)
      show ?thesis
      proof (cases detect)
        case False
        with assms a Inr r' show ?thesis
          by (auto simp: computeDists_def Let_def)
      next
        case True
        with assms a Inr r' have
          "self' = snd (outlier_stage good_cols good_rows (self\<lparr>dists := Some D\<rparr>) D)"
          by (auto simp: computeDists_def Let_def)
        then show ?thesis
          by (simp add: outlier_stage_dists)
      qed
    qed
    with a tasks show ?thesis by blast
  qed
qed

lemma ens_m_pruned: "prune ((Ensemble_init True)\<lparr>library := lib2\<rparr>) (Some 1) = (Inr (), ens_m)"
  by (simp add: prune_def Ensemble_init_def lib2_def ens_m_def upt_rec [of 0] upt_rec [of 1]
      upt_rec [of "Suc 0"])

text \<open>
  Claim C9. On the coordinator, \<^verbatim>\<open>computeDists\<close> leaves a distance matrix
  in which every cell that no returned (task, result) pair addresses still
  holds the initial \<^verbatim>\<open>np.Inf\<close>, which is not the distance 0; this holds
  whether the call returns or raises.
\<close>
theorem uncomputed_cells_stay_inf:
  assumes "master self" and "lm_sigs self = Some lms" and "lm_idx self = Some lm"
    and "computeDists good_cols good_rows self results detect = (r, self')"
    and "i < length (sigs (library self))" and "c < length lms"
    and "\<forall>(t, d) \<in> set (zip (task_list (length (sigs (library self))) (length lms) lm) results).
           \<not> (fst t = i \<and> first_pos lm (snd t) = Some c)"
  shows "\<exists>D. dists self' = Some D \<and> D ! i ! c = PInf \<and> D ! i ! c \<noteq> Fin 0"
proof -
  let ?D0 = "replicate (length (sigs (library self))) (replicate (length lms) PInf)"
  have init: "?D0 ! i ! c = PInf"
    using assms(5,6) by simp
  from dists_after_computeDists [OF assms(1-4)]
  consider "dists self' = Some ?D0"
    | r' D where "assemble lm ?D0
          (task_list (length (sigs (library self))) (length lms) lm) results = (r', D)"
        "dists self' = Some D"
    by blast
  then show ?thesis
  proof cases
    case 1
    with init show ?thesis by simp
  next
    case 2
    from assemble_untouched [OF 2(1) assms(7)] init have "D ! i ! c = PInf" by simp
    with 2(2) show ?thesis by simp
  qed
qed

theorem uncomputed_cells_stay_inf_witness:
  "computeDists all_cols all_rows ens_m [0, 1 / 2, 1 / 2] False =
     (Inr (), ens_m\<lparr>dists := Some [[Fin 0, Fin (1 / 2)], [Fin (1 / 2), PInf]]\<rparr>) \<and>
   (\<exists>D. dists (ens_m\<lparr>dists := Some [[Fin 0, Fin (1 / 2)], [Fin (1 / 2), PInf]]\<rparr>) = Some D \<and>
        D ! 1 ! 1 = PInf \<and> D ! 1 ! 1 \<noteq> Fin 0)"
proof -
  have tl: "task_list 2 2 [0, 1] = [(0, 0), (0, 1), (1, 0), (1, 1)]"
    by (simp add: task_list_def upt_rec [of 0] upt_rec [of 1] upt_rec [of "Suc 0"])
  have tl': "task_list (Suc (Suc 0)) (Suc (Suc 0)) [0, Suc 0] =
      [(0, 0), (0, Suc 0), (Suc 0, 0), (Suc 0, Suc 0)]"
    using tl by (simp add: numeral_2_eq_2)
  have run: "computeDists all_cols all_rows ens_m [0, 1 / 2, 1 / 2] False =
     (Inr (), ens_m\<lparr>dists := Some [[Fin 0, Fin (1 / 2)], [Fin (1 / 2), PInf]]\<rparr>)"
    by (simp add: computeDists_def build_tasks_def ens_m_def Ensemble_init_def lib2_def tl'
        set_cell_def numeral_2_eq_2 Let_def)
  have m: "master ens_m" and s: "lm_sigs ens_m = Some [''4:6:[[1, 2]]'', ''1:0:[[1]]'']"
    and l: "lm_idx ens_m = Some [0, 1]"
    by (simp_all add: ens_m_def Ensemble_init_def)
  have i: "1 < length (sigs (library ens_m))"
    by (simp add: ens_m_def lib2_def)
  have c: "(1::nat) < length [''4:6:[[1, 2]]'', ''1:0:[[1]]'']"
    by simp
  have none: "\<forall>(t, d) \<in> set (zip (task_list (length (sigs (library ens_m)))
        (length [''4:6:[[1, 2]]'', ''1:0:[[1]]'']) [0, 1]) [0, 1 / 2, 1 / 2 :: real]).
           \<not> (fst t = 1 \<and> first_pos [0, 1] (snd t) = Some 1)"
    by (simp add: ens_m_def lib2_def tl')
  show ?thesis
    using uncomputed_cells_stay_inf [OF m s l run i c none] run by simp
qed


section \<open>Properties of DMap\<close>

lemma gauss_kernel_nth:
  "i < length dmat \<Longrightarrow> j < length (dmat ! i) \<Longrightarrow>
   gauss_kernel dmat eps ! i ! j = exp (- (dmat ! i ! j)\<^sup>2 / (2 * eps))"
  by (simp add: gauss_kernel_def)

lemma gauss_kernel_shape:
  "length (gauss_kernel dmat eps) = length dmat"
  "i < length dmat \<Longrightarrow> length (gauss_kernel dmat eps ! i) = length (dmat ! i)"
  "ncols (gauss_kernel dmat eps) = ncols dmat"
  by (simp_all add: gauss_kernel_def ncols_def split: list.splits)

text \<open>Multiplying by a diagonal matrix picks one term of each sum.\<close>

lemma sum_list_diag:
  "sum_list (map (\<lambda>k. (if i = k then a else 0) * f k) [0..<n]) = (if i < n then a * f i else (0::real))"
  by (induction n) (auto simp: less_Suc_eq)

lemma matmul_diag_nth:
  assumes "i < length v" and "j < ncols b"
  shows "matmul (np_diag v) b ! i ! j = v ! i * b ! i ! j"
proof -
  have len: "length (np_diag v ! i) = length v"
    using assms(1) by (simp add: np_diag_def)
  have ent: "np_diag v ! i ! k = (if i = k then v ! i else 0)" if "k < length v" for k
    using assms(1) that by (simp add: np_diag_def)
  have rows: "length (np_diag v) = length v"
    by (simp add: np_diag_def)
  have "matmul (np_diag v) b ! i ! j =
      sum_list (map (\<lambda>k. np_diag v ! i ! k * b ! k ! j) [0..<length (np_diag v ! i)])"
    using assms rows by (simp add: matmul_def)
  also have "\<dots> = sum_list (map (\<lambda>k. np_diag v ! i ! k * b ! k ! j) [0..<length v])"
    by (simp only: len)
  also have "\<dots> = sum_list (map (\<lambda>k. (if i = k then v ! i else 0) * b ! k ! j) [0..<length v])"
    by (intro arg_cong [where f = sum_list] map_cong) (simp_all add: ent)
  also have "\<dots> = v ! i * b ! i ! j"
    using assms(1) by (simp add: sum_list_diag)
  finally show ?thesis .
qed

lemma transition_nth:
  assumes "i < length dmat" and "j < ncols dmat"
  shows "transition dmat eps ! i ! j =
         gauss_kernel dmat eps ! i ! j / sum_list (gauss_kernel dmat eps ! i)"
proof -
  let ?K = "gauss_kernel dmat eps"
  have "transition dmat eps ! i ! j = map (\<lambda>r. 1 / r) (row_sums ?K) ! i * ?K ! i ! j"
    unfolding transition_def Let_def
    using assms by (intro matmul_diag_nth) (simp_all add: row_sums_def gauss_kernel_shape)
  also have "\<dots> = ?K ! i ! j / sum_list (?K ! i)"
    using assms(1) by (simp add: row_sums_def gauss_kernel_shape)
  finally show ?thesis .
qed

text \<open>
  Claim C1, as amended. For a nonzero bandwidth and a rectangular distance
  matrix, \<^verbatim>\<open>compute\<close> builds the kernel
  \<open>K[i,j] = exp(-d[i,j]\<^sup>2 / (2 epsilon))\<close>, with the bandwidth itself and not
  its square in the denominator, divides each entry by the sum of its row, and
  hands that row-normalised matrix to the eigen-solver.
\<close>
theorem compute_markov_matrix:
  assumes "eps \<noteq> 0"
    and "\<forall>row \<in> set dmat. length row = ncols dmat"
    and "i < length dmat" and "j < ncols dmat"
  shows "gauss_kernel dmat eps ! i ! j = exp (- (dmat ! i ! j)\<^sup>2 / (2 * eps)) \<and>
         transition dmat eps ! i ! j =
           gauss_kernel dmat eps ! i ! j / sum_list (gauss_kernel dmat eps ! i) \<and>
         compute np self dmat (VNum eps) =
           (case np_eig np (transition dmat eps) of
              Inl e \<Rightarrow> (Inl e, self(''epsilon'' \<mapsto> VNum eps, ''dists'' \<mapsto> VMat dmat))
            | Inr (w, v) \<Rightarrow>
                keep_spectrum (self(''epsilon'' \<mapsto> VNum eps, ''dists'' \<mapsto> VMat dmat)) w v)"
proof -
  from assms(2,3) have "length (dmat ! i) = ncols dmat" by simp
  with assms(3,4) have "gauss_kernel dmat eps ! i ! j = exp (- (dmat ! i ! j)\<^sup>2 / (2 * eps))"
    by (simp add: gauss_kernel_nth)
  moreover note transition_nth [OF assms(3,4)]
  moreover have "compute np self dmat (VNum eps) =
           (case np_eig np (transition dmat eps) of
              Inl e \<Rightarrow> (Inl e, self(''epsilon'' \<mapsto> VNum eps, ''dists'' \<mapsto> VMat dmat))
            | Inr (w, v) \<Rightarrow>
                keep_spectrum (self(''epsilon'' \<mapsto> VNum eps, ''dists'' \<mapsto> VMat dmat)) w v)"
    using assms(1) by (simp add: compute_def as_float_def split: sum.splits)
  ultimately show ?thesis by blast
qed

theorem compute_markov_matrix_witness:
  "gauss_kernel two_points 2 ! 0 ! 1 = exp (- 1 / 4) \<and>
   transition two_points 2 ! 0 ! 1 = exp (- 1 / 4) / (1 + exp (- 1 / 4))"
proof -
  have a: "(2::real) \<noteq> 0" by simp
  have b: "\<forall>row \<in> set two_points. length row = ncols two_points"
    by (simp add: two_points_def ncols_def)
  have c: "0 < length two_points" and d: "1 < ncols two_points"
    by (simp_all add: two_points_def ncols_def)
  have row: "gauss_kernel two_points 2 ! 0 = [1, exp (- 1 / 4)]"
    by (simp add: gauss_kernel_def two_points_def Let_def)
  show ?thesis
    using compute_markov_matrix [OF a b c d] row by (simp add: two_points_def)
qed

text \<open>
  At distance 1 and bandwidth 2 the kernel entry is \<open>exp(-1/4)\<close>; the
  formula with the squared bandwidth gives \<open>exp(-1/8)\<close>.
\<close>

theorem kernel_bandwidth_counterexample:
  "gauss_kernel two_points 2 ! 0 ! 1 \<noteq> spec_kernel_entry (two_points ! 0 ! 1) 2"
  by (simp add: gauss_kernel_def two_points_def spec_kernel_entry_def Let_def)


lemma map_insort_key: "map f (insort_key f x xs) = insort (f x) (map f xs)"
  by (induction xs) simp_all

lemma map_sort_key: "map f (sort_key f xs) = sort (map f xs)"
  by (induction xs) (simp_all add: map_insort_key)

lemma argsort_values: "map (\<lambda>i. xs ! i) (argsort xs) = sort xs"
  by (simp add: argsort_def map_sort_key map_nth)

lemma argsort_set: "set (argsort xs) = {0..<length xs}"
  by (simp add: argsort_def)

lemma argsort_length: "length (argsort xs) = length xs"
  by (simp add: argsort_def)

lemma slice_map: "take k (drop 1 (map f xs)) = map f (take k (drop 1 xs))"
  by (simp add: take_map drop_map)

lemma map_nth_map:
  "\<forall>i \<in> set idx. i < length xs \<Longrightarrow> map ((!) (map f xs)) idx = map (\<lambda>i. f (xs ! i)) idx"
  by (induction idx) simp_all

lemma keep_spectrum_result:
  assumes "self ''num_evec'' = Some (VNat k)"
    and "\<forall>row \<in> set v. length row = length w"
  shows "keep_spectrum self w v =
     (Inr (),
      self(''evals'' \<mapsto> VVec (map (\<lambda>i. Re (w ! i)) (take k (drop 1 (rev (argsort (map Re w)))))),
           ''evecs'' \<mapsto> VMat (map (\<lambda>row. map (\<lambda>i. Re (row ! i))
                                   (take k (drop 1 (rev (argsort (map Re w)))))) v)))"
proof -
  let ?idx = "rev (argsort (map Re w))"
  have idx: "\<forall>i \<in> set ?idx. i < length w"
    by (simp add: argsort_set)
  have guard: "\<forall>row \<in> set (map (map Re) v). \<forall>i \<in> set ?idx. i < length row"
    using assms(2) idx by simp
  have ev: "take k (drop 1 (map (\<lambda>i. map Re w ! i) ?idx)) =
      map (\<lambda>i. Re (w ! i)) (take k (drop 1 ?idx))"
    by (simp only: map_nth_map [OF idx] take_map drop_map)
  have rows: "map (\<lambda>row. take k (drop 1 (map (\<lambda>i. row ! i) ?idx))) (map (map Re) v) =
      map (\<lambda>row. map (\<lambda>i. Re (row ! i)) (take k (drop 1 ?idx))) v"
  proof -
    have "take k (drop 1 (map (\<lambda>i. map Re row ! i) ?idx)) =
          map (\<lambda>i. Re (row ! i)) (take k (drop 1 ?idx))" if "row \<in> set v" for row
    proof -
      from idx assms(2) that have "\<forall>i \<in> set ?idx. i < length row" by simp
      then show ?thesis
        by (simp only: map_nth_map take_map drop_map)
    qed
    then show ?thesis by (simp add: comp_def)
  qed
  have g: "getattr self ''num_evec'' = Inr (VNat k)"
    using assms(1) by (simp add: getattr_def)
  show ?thesis
    by (simp only: keep_spectrum_def Let_def g sum.case val.case ev rows if_P [OF guard])
qed

lemma transition_two_points:
  "transition two_points 2 =
     [[1 / (1 + exp (- 1 / 4)), exp (- 1 / 4) / (1 + exp (- 1 / 4))],
      [exp (- 1 / 4) / (1 + exp (- 1 / 4)), 1 / (1 + exp (- 1 / 4))]]"
  by (simp add: transition_def gauss_kernel_def row_sums_def np_diag_def matmul_def ncols_def
      two_points_def Let_def upt_rec [of 0] upt_rec [of 1] upt_rec [of "Suc 0"] numeral_2_eq_2
      add.commute)

lemma argsort_pair_desc: "y < x \<Longrightarrow> argsort [x, y] = [1, 0]"
  by (simp add: argsort_def upt_rec [of 0] upt_rec [of 1] upt_rec [of "Suc 0"] numeral_2_eq_2)

lemma eig_two_points:
  "np_eig np_sym2 (transition two_points 2) =
     Inr ([Complex 1 0, Complex ((1 - exp (- 1 / 4)) / (1 + exp (- 1 / 4))) 0],
          [[Complex (1 / sqrt 2) 0, Complex (- 1 / sqrt 2) 0],
           [Complex (1 / sqrt 2) 0, Complex (1 / sqrt 2) 0]])"
proof -
  have pos: "1 + exp (- 1 / 4 :: real) \<noteq> 0"
    using exp_gt_zero [of "- 1 / 4 :: real"] by linarith
  have "1 / (1 + exp (- 1 / 4 :: real)) + exp (- 1 / 4) / (1 + exp (- 1 / 4)) = 1"
    using pos by (simp add: add_divide_distrib [symmetric])
  moreover have "1 / (1 + exp (- 1 / 4 :: real)) - exp (- 1 / 4) / (1 + exp (- 1 / 4)) =
      (1 - exp (- 1 / 4)) / (1 + exp (- 1 / 4))"
    by (simp add: diff_divide_distrib)
  ultimately show ?thesis
    by (simp add: np_sym2_def eig_sym2_def transition_two_points)
qed

lemma second_smaller: "(1 - exp (- 1 / 4 :: real)) / (1 + exp (- 1 / 4)) < 1"
proof -
  have "0 < exp (- 1 / 4 :: real)" by simp
  then have "1 - exp (- 1 / 4 :: real) < 1 + exp (- 1 / 4)" by linarith
  moreover have "0 < 1 + exp (- 1 / 4 :: real)"
    using exp_gt_zero [of "- 1 / 4 :: real"] by linarith
  ultimately show ?thesis by (simp add: divide_less_eq)
qed

lemma gauss_row_sum:
  "i < length dmat \<Longrightarrow>
   sum_list (gauss_kernel dmat eps ! i) = (\<Sum>d\<leftarrow>dmat ! i. exp (- d\<^sup>2 / (2 * eps)))"
  by (simp add: gauss_kernel_def comp_def)

lemma slice_two_points:
  assumes "x < 1"
  shows "take k (drop 1 (rev (argsort (map Re [Complex 1 0, Complex x 0])))) =
         (if k = 0 then [] else [1])"
proof -
  have "argsort (map Re [Complex 1 0, Complex x 0]) = [1, 0]"
    using argsort_pair_desc [OF assms] by simp
  then show ?thesis by (cases k) simp_all
qed

text \<open>
  Claim C5, as amended. For a nonzero bandwidth and a rectangular distance
  matrix, the matrix handed to the eigen-solver is the row-normalised kernel,
  with entries \<open>exp(-d[i,j]\<^sup>2 / (2 epsilon))\<close> divided by the sum of their row.
  When the solver returns eigenvalues \<open>w\<close> and a matrix \<open>v\<close> whose rows are as
  long as \<open>w\<close>, \<^verbatim>\<open>compute\<close> returns and stores, for one list \<open>sel\<close> of
  indices, the real parts of the eigenvalues at \<open>sel\<close> as \<^verbatim>\<open>evals\<close> and the
  real parts of the columns at \<open>sel\<close> as \<^verbatim>\<open>evecs\<close>; \<open>sel\<close> skips the index
  of the largest real part and takes the next indices in descending order of
  the real parts, \<^verbatim>\<open>num_evec\<close> of them or all that remain when there are
  fewer: \<open>min(num_evec, n - 1)\<close>.
\<close>

theorem compute_keeps_next_eigenpairs:
  assumes "eps \<noteq> 0"
    and "\<forall>row \<in> set dmat. length row = ncols dmat"
    and "np_eig np (transition dmat eps) = Inr (w, v)"
    and "self ''num_evec'' = Some (VNat k)"
    and "\<forall>row \<in> set v. length row = length w"
  shows "(\<forall>i < length dmat. \<forall>j < ncols dmat.
            transition dmat eps ! i ! j =
              exp (- (dmat ! i ! j)\<^sup>2 / (2 * eps)) / (\<Sum>d\<leftarrow>dmat ! i. exp (- d\<^sup>2 / (2 * eps)))) \<and>
         (\<exists>self' sel.
            sel = take k (drop 1 (rev (argsort (map Re w)))) \<and>
            compute np self dmat (VNum eps) = (Inr (), self') \<and>
            self' ''evals'' = Some (VVec (map (\<lambda>i. Re (w ! i)) sel)) \<and>
            self' ''evecs'' = Some (VMat (map (\<lambda>row. map (\<lambda>i. Re (row ! i)) sel) v)) \<and>
            map (\<lambda>i. Re (w ! i)) sel = take k (drop 1 (rev (sort (map Re w)))) \<and>
            length sel = min k (length w - 1))"
proof
  show "\<forall>i < length dmat. \<forall>j < ncols dmat.
            transition dmat eps ! i ! j =
              exp (- (dmat ! i ! j)\<^sup>2 / (2 * eps)) / (\<Sum>d\<leftarrow>dmat ! i. exp (- d\<^sup>2 / (2 * eps)))"
  proof (intro allI impI)
    fix i j assume i: "i < length dmat" and j: "j < ncols dmat"
    from assms(2) i have "length (dmat ! i) = ncols dmat" by simp
    with i j have "gauss_kernel dmat eps ! i ! j = exp (- (dmat ! i ! j)\<^sup>2 / (2 * eps))"
      by (simp add: gauss_kernel_nth)
    with transition_nth [OF i j, of eps] gauss_row_sum [OF i, of eps]
    show "transition dmat eps ! i ! j =
              exp (- (dmat ! i ! j)\<^sup>2 / (2 * eps)) / (\<Sum>d\<leftarrow>dmat ! i. exp (- d\<^sup>2 / (2 * eps)))"
      by simp
  qed
next
  let ?sel = "take k (drop 1 (rev (argsort (map Re w))))"
  let ?self1 = "self(''epsilon'' \<mapsto> VNum eps, ''dists'' \<mapsto> VMat dmat)"
  have k: "?self1 ''num_evec'' = Some (VNat k)"
    using assms(4) by simp
  have run: "compute np self dmat (VNum eps) = keep_spectrum ?self1 w v"
    using assms(1,3) by (simp add: compute_def as_float_def)
  have "map (\<lambda>i. Re (w ! i)) (rev (argsort (map Re w))) = rev (sort (map Re w))"
  proof -
    have "\<forall>i \<in> set (argsort (map Re w)). i < length w"
      by (simp add: argsort_set)
    then have "map (\<lambda>i. Re (w ! i)) (argsort (map Re w)) =
          map (\<lambda>i. map Re w ! i) (argsort (map Re w))"
      by (simp only: map_nth_map)
    also have "\<dots> = sort (map Re w)"
      by (rule argsort_values)
    finally show ?thesis
      by (simp only: rev_map [symmetric])
  qed
  then have sorted: "map (\<lambda>i. Re (w ! i)) ?sel = take k (drop 1 (rev (sort (map Re w))))"
    by (simp only: take_map [symmetric] drop_map [symmetric])
  have len: "length ?sel = min k (length w - 1)"
    by (simp add: argsort_length min.commute)
  show "\<exists>self' sel.
            sel = take k (drop 1 (rev (argsort (map Re w)))) \<and>
            compute np self dmat (VNum eps) = (Inr (), self') \<and>
            self' ''evals'' = Some (VVec (map (\<lambda>i. Re (w ! i)) sel)) \<and>
            self' ''evecs'' = Some (VMat (map (\<lambda>row. map (\<lambda>i. Re (row ! i)) sel) v)) \<and>
            map (\<lambda>i. Re (w ! i)) sel = take k (drop 1 (rev (sort (map Re w)))) \<and>
            length sel = min k (length w - 1)"
    using run keep_spectrum_result [where self = ?self1 and k = k, OF k assms(5)] sorted len
    by simp
qed

theorem compute_keeps_next_eigenpairs_witness:
  "transition two_points 2 ! 0 ! 1 = exp (- 1 / 4) / (1 + exp (- 1 / 4)) \<and>
   (\<exists>self'. compute np_sym2 (DMap_init 1) two_points (VNum 2) = (Inr (), self') \<and>
      self' ''evals'' = Some (VVec [(1 - exp (- 1 / 4)) / (1 + exp (- 1 / 4))]) \<and>
      self' ''evecs'' = Some (VMat [[- 1 / sqrt 2], [1 / sqrt 2]]))"
proof -
  define x :: real where "x = (1 - exp (- 1 / 4)) / (1 + exp (- 1 / 4))"
  let ?w = "[Complex 1 0, Complex x 0]"
  let ?v = "[[Complex (1 / sqrt 2) 0, Complex (- 1 / sqrt 2) 0],
             [Complex (1 / sqrt 2) 0, Complex (1 / sqrt 2) 0]]"
  have a: "(2::real) \<noteq> 0" by simp
  have rect: "\<forall>row \<in> set two_points. length row = ncols two_points"
    by (simp add: two_points_def ncols_def)
  have eig: "np_eig np_sym2 (transition two_points 2) = Inr (?w, ?v)"
    unfolding x_def by (rule eig_two_points)
  have k: "DMap_init 1 ''num_evec'' = Some (VNat 1)"
    by (simp add: DMap_init_def)
  have shape: "\<forall>row \<in> set ?v. length row = length ?w"
    by simp
  have x: "x < 1"
    unfolding x_def by (rule second_smaller)
  note inst = compute_keeps_next_eigenpairs
    [where self = "DMap_init 1" and k = 1, OF a rect eig k shape]
  from inst have entries: "\<forall>i < length two_points. \<forall>j < ncols two_points.
      transition two_points 2 ! i ! j =
        exp (- (two_points ! i ! j)\<^sup>2 / (2 * 2)) / (\<Sum>d\<leftarrow>two_points ! i. exp (- d\<^sup>2 / (2 * 2)))"
    by (rule conjunct1)
  have "0 < length two_points" "1 < ncols two_points"
    by (simp_all add: two_points_def ncols_def)
  with entries have "transition two_points 2 ! 0 ! 1 =
        exp (- (two_points ! 0 ! 1)\<^sup>2 / (2 * 2)) / (\<Sum>d\<leftarrow>two_points ! 0. exp (- d\<^sup>2 / (2 * 2)))"
    by blast
  then have first: "transition two_points 2 ! 0 ! 1 = exp (- 1 / 4) / (1 + exp (- 1 / 4))"
    by (simp add: two_points_def)
  from inst obtain self' where
    run: "compute np_sym2 (DMap_init 1) two_points (VNum 2) = (Inr (), self')" and
    ev: "self' ''evals'' =
      Some (VVec (map (\<lambda>i. Re (?w ! i)) (take 1 (drop 1 (rev (argsort (map Re ?w)))))))" and
    evc: "self' ''evecs'' =
      Some (VMat (map (\<lambda>row. map (\<lambda>i. Re (row ! i))
                 (take 1 (drop 1 (rev (argsort (map Re ?w)))))) ?v))"
    by blast
  have "self' ''evals'' = Some (VVec [x])"
    unfolding ev slice_two_points [OF x] by simp
  moreover have "self' ''evecs'' = Some (VMat [[- 1 / sqrt 2], [1 / sqrt 2]])"
    unfolding evc slice_two_points [OF x] by simp
  ultimately show ?thesis
    using first run unfolding x_def by blast
qed

text \<open>
  With the default \<^verbatim>\<open>num_evec = 4\<close> and two points the eigen-solver returns
  two eigenpairs, and \<^verbatim>\<open>compute\<close> keeps one of them, not four.
\<close>

theorem compute_keeps_fewer_counterexample:
  "DMap_init 4 ''num_evec'' = Some (VNat 4) \<and>
   fst (compute np_sym2 (DMap_init 4) two_points (VNum 2)) = Inr () \<and>
   snd (compute np_sym2 (DMap_init 4) two_points (VNum 2)) ''evals'' =
     Some (VVec [(1 - exp (- 1 / 4)) / (1 + exp (- 1 / 4))]) \<and>
   snd (compute np_sym2 (DMap_init 4) two_points (VNum 2)) ''evecs'' =
     Some (VMat [[- 1 / sqrt 2], [1 / sqrt 2]])"
proof -
  define x :: real where "x = (1 - exp (- 1 / 4)) / (1 + exp (- 1 / 4))"
  let ?w = "[Complex 1 0, Complex x 0]"
  let ?v = "[[Complex (1 / sqrt 2) 0, Complex (- 1 / sqrt 2) 0],
             [Complex (1 / sqrt 2) 0, Complex (1 / sqrt 2) 0]]"
  let ?self1 = "(DMap_init 4)(''epsilon'' \<mapsto> VNum 2, ''dists'' \<mapsto> VMat two_points)"
  have k4: "DMap_init 4 ''num_evec'' = Some (VNat 4)"
    by (simp add: DMap_init_def)
  then have k: "?self1 ''num_evec'' = Some (VNat 4)"
    by simp
  have shape: "\<forall>row \<in> set ?v. length row = length ?w"
    by simp
  have x: "x < 1"
    unfolding x_def by (rule second_smaller)
  have eig: "np_eig np_sym2 (transition two_points 2) = Inr (?w, ?v)"
    unfolding x_def by (rule eig_two_points)
  have run: "compute np_sym2 (DMap_init 4) two_points (VNum 2) = keep_spectrum ?self1 ?w ?v"
    by (simp add: compute_def as_float_def eig)
  have res: "compute np_sym2 (DMap_init 4) two_points (VNum 2) =
      (Inr (), ?self1(''evals'' \<mapsto> VVec [x],
                     ''evecs'' \<mapsto> VMat [[- 1 / sqrt 2], [1 / sqrt 2]]))"
    unfolding run keep_spectrum_result [where self = ?self1 and k = 4, OF k shape]
      slice_two_points [OF x]
    by simp
  show ?thesis
    using k4 unfolding res x_def by simp
qed


lemma keep_spectrum_frame:
  "name \<noteq> ''evals'' \<Longrightarrow> name \<noteq> ''evecs'' \<Longrightarrow> snd (keep_spectrum s w v) name = s name"
  by (auto simp: keep_spectrum_def Let_def split: sum.splits val.splits)

lemma compute_frame:
  assumes "name \<noteq> ''epsilon''" "name \<noteq> ''dists''" "name \<noteq> ''evals''" "name \<noteq> ''evecs''"
  shows "snd (compute np s dmat eps) name = s name"
proof (cases "as_float eps")
  case None
  with assms show ?thesis by (simp add: compute_def)
next
  case (Some e)
  show ?thesis
  proof (cases "e = 0")
    case True
    with Some assms show ?thesis by (simp add: compute_def)
  next
    case False
    show ?thesis
    proof (cases "np_eig np (transition dmat e)")
      case (Inl err)
      with Some False assms show ?thesis by (simp add: compute_def)
    next
      case (Inr wv)
      obtain w v where "wv = (w, v)" by (cases wv)
      with Inr Some False assms show ?thesis
        by (simp add: compute_def keep_spectrum_frame)
    qed
  qed
qed

lemma compute_epsilon: "snd (compute np s dmat eps) ''epsilon'' = Some eps"
proof (cases "as_float eps")
  case None
  then show ?thesis by (simp add: compute_def)
next
  case (Some e)
  show ?thesis
  proof (cases "e = 0")
    case True
    with Some show ?thesis by (simp add: compute_def)
  next
    case False
    show ?thesis
    proof (cases "np_eig np (transition dmat e)")
      case (Inl err)
      with Some False show ?thesis by (simp add: compute_def)
    next
      case (Inr wv)
      obtain w v where "wv = (w, v)" by (cases wv)
      with Inr Some False show ?thesis
        by (simp add: compute_def keep_spectrum_frame)
    qed
  qed
qed

lemma never_assigned_compute:
  assumes "never_assigned s" and "eps = VNone \<or> as_float eps \<noteq> None"
  shows "never_assigned (snd (compute np s dmat eps))"
  using assms by (auto simp: never_assigned_def compute_frame compute_epsilon)

lemma embed_fails:
  assumes "never_assigned s"
  shows "embed s dmat =
     Inl (if s ''epsilon'' = Some VNone then TypeError ''epsilon'' else AttributeError ''eigenvec'')"
  using assms
  by (auto simp: never_assigned_def embed_def getattr_def as_float_def Let_def)

lemma build_fails:
  assumes "never_assigned s"
  shows "(\<exists>e. fst (build np rest s dmat lms vc vr) = Inl e) \<and>
         never_assigned (snd (build np rest s dmat lms vc vr))"
proof -
  let ?rows = "case vr of None \<Rightarrow> [0..<length dmat] | Some r \<Rightarrow> r"
  let ?cols = "case vc of None \<Rightarrow> [0..<ncols dmat] | Some c \<Rightarrow> c"
  show ?thesis
  proof (cases "getattr s ''alpha''")
    case (Inl e)
    with assms show ?thesis by (simp add: build_def)
  next
    case (Inr a)
    show ?thesis
    proof (cases "as_float a")
      case None
      with Inr assms show ?thesis by (simp add: build_def)
    next
      case (Some alpha)
      let ?ad = "np_power np dmat alpha"
      show ?thesis
      proof (cases "build_select ?ad lms ?rows ?cols")
        case (Inl e)
        with Inr Some assms show ?thesis by (simp add: build_def)
      next
        case sel: (Inr DL)
        obtain D L where DL: "DL = (D, L)" by (cases DL)
        from assms obtain eps0 where e0: "s ''epsilon'' = Some eps0"
          and e0': "eps0 = VNone \<or> as_float eps0 \<noteq> None"
          by (auto simp: never_assigned_def)
        define eps where "eps = (if eps0 = VNone then VNum (np_median np ?ad) else eps0)"
        define s1 where "s1 = s(''epsilon'' \<mapsto> eps)"
        have eps: "as_float eps \<noteq> None"
          using e0' by (auto simp: eps_def as_float_def)
        have "never_assigned s1"
          using assms eps by (auto simp: never_assigned_def s1_def)
        then have inv2: "never_assigned (snd (compute np s1 D eps))"
          using eps by (intro never_assigned_compute) auto
        obtain r s2 where c: "compute np s1 D eps = (r, s2)"
          by (cases "compute np s1 D eps")
        with inv2 have inv2': "never_assigned s2" by simp
        have unfold: "build np rest s dmat lms vc vr =
            (case r of
               Inl e \<Rightarrow> (Inl e, s2)
             | Inr u \<Rightarrow>
                 (case L of
                    None \<Rightarrow> (Inl (UnboundLocalError ''L''), s2)
                  | Some L' \<Rightarrow>
                      (case embed s2 L' of
                         Inl e \<Rightarrow> (Inl e, s2)
                       | Inr loc \<Rightarrow> rest (s2(''evecs_ny'' \<mapsto> VMat loc)))))"
          using Inr Some sel DL e0 c
          by (simp add: build_def getattr_def eps_def s1_def Let_def split: sum.splits)
        show ?thesis
        proof (cases r)
          case (Inl e)
          with unfold inv2' show ?thesis by simp
        next
          case r: (Inr u)
          show ?thesis
          proof (cases L)
            case None
            with unfold r inv2' show ?thesis by simp
          next
            case (Some L')
            with unfold r inv2' embed_fails [OF inv2', of L'] show ?thesis by simp
          qed
        qed
      qed
    qed
  qed
qed

lemma reachable_never_assigned: "reachable np rest s \<Longrightarrow> never_assigned s"
proof (induction rule: reachable.induct)
  case (r_init k)
  show ?case by (simp add: never_assigned_def DMap_init_def)
next
  case (r_compute s eps dmat)
  then show ?case by (intro never_assigned_compute)
next
  case (r_build s dmat lms vc vr)
  then show ?case using build_fails by blast
qed

text \<open>
  Claim C2, as amended. In every state that \<^verbatim>\<open>__init__\<close>, \<^verbatim>\<open>compute\<close>
  and \<^verbatim>\<open>build\<close> produce, every call of \<^verbatim>\<open>embed\<close> raises: the TypeError
  of line 46 while \<^verbatim>\<open>epsilon\<close> is still None, otherwise the AttributeError
  for the never-assigned \<^verbatim>\<open>eigenvec\<close>; and \<^verbatim>\<open>build\<close> never returns
  normally.
\<close>
theorem embed_never_succeeds:
  assumes "reachable np rest s"
  shows "embed s dmat =
           Inl (if s ''epsilon'' = Some VNone then TypeError ''epsilon''
                else AttributeError ''eigenvec'') \<and>
         (\<exists>e. fst (build np rest s dmat' lms vc vr) = Inl e)"
proof -
  from assms have "never_assigned s" by (rule reachable_never_assigned)
  then show ?thesis using embed_fails build_fails by blast
qed

theorem embed_never_succeeds_witness:
  "reachable np_fixed rest_none fitted \<and>
   embed fitted three_points = Inl (AttributeError ''eigenvec'') \<and>
   (\<exists>e. fst (build np_fixed rest_none fitted three_points (Some [0, 1]) None None) = Inl e)"
proof -
  have r: "reachable np_fixed rest_none fitted"
    unfolding fitted_def by (rule reachable.r_compute) (simp_all add: reachable.r_init as_float_def)
  have e: "fitted ''epsilon'' = Some (VNum 2)"
    by (simp add: fitted_def compute_epsilon)
  show ?thesis
    using embed_never_succeeds [OF r, of three_points three_points "Some [0, 1]" None None] r e
    by simp
qed

text \<open>
  On a fresh instance the exception is not an AttributeError: line 46
  multiplies by the None bandwidth first.
\<close>

theorem embed_fresh_counterexample:
  "embed (DMap_init 4) two_points = Inl (TypeError ''epsilon'') \<and>
   embed (DMap_init 4) two_points \<noteq> Inl (AttributeError ''eigenvec'')"
  by (simp add: embed_def getattr_def DMap_init_def as_float_def)


section \<open>Properties of rankOrderTransform\<close>

lemma non_nan_all_nan: "\<forall>x \<in> set r. x = None \<Longrightarrow> non_nan r = []"
  by (induction r) (simp_all add: non_nan_def)

lemma linspace01_length: "length (linspace01 n) = n"
  by (simp add: linspace01_def)

lemma np_interp_error:
  "np_interp r s (linspace01 (length s)) = Inl e \<Longrightarrow>
   e = ValueError ''array of sample points is empty''"
  by (simp add: np_interp_def linspace01_length split: if_splits)

text \<open>
  A column without a single non-NaN value makes the column loop raise, whatever
  the other columns hold.
\<close>

lemma rank_columns_all_nan:
  assumes "i \<in> set cols" and "\<forall>row \<in> set R. row ! i = None"
  shows "rank_columns R coords cols = Inl (ValueError ''array of sample points is empty'')"
  using assms(1)
proof (induction cols arbitrary: coords)
  case Nil
  then show ?case by simp
next
  case (Cons c cols)
  let ?s = "np_unique (non_nan (get_col R c))"
  show ?case
  proof (cases "np_interp (get_col R c) ?s (linspace01 (length ?s))")
    case (Inl e)
    with np_interp_error [OF Inl] show ?thesis by (simp add: Let_def)
  next
    case (Inr col)
    have "c \<noteq> i"
    proof
      assume "c = i"
      with assms(2) have "non_nan (get_col R c) = []"
        by (intro non_nan_all_nan) (simp add: get_col_def)
      then have "?s = []" by (simp add: np_unique_def)
      with Inr show False by (simp add: np_interp_def)
    qed
    with Cons.prems have "i \<in> set cols" by simp
    from Cons.IH [OF this] Inr show ?thesis by (simp add: Let_def)
  qed
qed

lemma rankOrderTransform_all_nan:
  assumes "i < ncols R" and "\<forall>row \<in> set R. row ! i = None"
  shows "rankOrderTransform R = Inl (ValueError ''array of sample points is empty'')"
proof -
  from assms(1) have "i \<in> set [0..<ncols R]" by simp
  from rank_columns_all_nan [OF this assms(2)] show ?thesis
    by (simp add: rankOrderTransform_def Let_def)
qed

lemma rankOrderTransform_nan_row:
  "rankOrderTransform [[Some 0, Some 5], [Some 1, None], [Some 2, Some 7]] =
     Inr [[Some 0, Some 0], [Some 1, Some 1], [Some 1, Some 1]]"
  by (simp add: rankOrderTransform_def ncols_def get_col_def set_col_def np_unique_def
      non_nan_def linspace01_def np_interp_def upt_rec [of 0] upt_rec [of 1] upt_rec [of 2]
      upt_rec [of "Suc 0"])

text \<open>
  A column with a single distinct value gives 0 in every row, its NaN rows
  included, so those rows do not receive the sentinel.
\<close>

lemma rankOrderTransform_single_value:
  "rankOrderTransform [[Some 5], [None]] = Inr [[Some 0], [Some 0]]"
  by (simp add: rankOrderTransform_def ncols_def get_col_def set_col_def np_unique_def
      non_nan_def linspace01_def np_interp_def)

text \<open>
  Claim C6. The column \<open>[0, 1, 2, 3]\<close> is mapped to \<open>[0, 1/3, 2/3, 1]\<close>.
  A column that is entirely NaN does not give rows of 1.0: its set of sample
  points is empty and \<^verbatim>\<open>np.interp\<close> raises ValueError, alone or beside a
  column with values.
\<close>
theorem rankOrderTransform_examples:
  "rankOrderTransform [[Some 0], [Some 1], [Some 2], [Some 3]] =
     Inr [[Some 0], [Some (1 / 3)], [Some (2 / 3)], [Some 1]] \<and>
   rankOrderTransform [[None], [None]] = Inl (ValueError ''array of sample points is empty'') \<and>
   rankOrderTransform [[None, Some 0], [None, Some 1]] =
     Inl (ValueError ''array of sample points is empty'')"
  by (simp add: rankOrderTransform_def ncols_def get_col_def set_col_def np_unique_def
      non_nan_def linspace01_def np_interp_def upt_rec [of 0] upt_rec [of 1] upt_rec [of 2]
      upt_rec [of 3] upt_rec [of "Suc 0"])


end
